theory Spec2Isabelle
  imports Main "HOL-Library.Word" "HOL-Library.Signed_Division"
begin

unbundle bit_operations_syntax

section \<open>Machine types and array access\<close>

text \<open>
  The sketch runs on an 8-bit AVR board: \<open>unsigned long\<close> is a 32-bit word whose
  arithmetic wraps, \<open>byte\<close> is an 8-bit word.  The \<open>int\<close> values of the sketch
  (16 bits on this board) are modelled as mathematical integers: indices and counters stay
  below 11, a die shows at most 100, a sum of at most nine dice is at most 900, and the
  rendering routines only divide, so no operation leaves the 16-bit range.  On \<open>int\<close>,
  \<open>/\<close> and \<open>%\<close> truncate towards zero (\<open>sdiv\<close>, \<open>smod\<close>).
\<close>

type_synonym ulong = "32 word"
type_synonym byte = "8 word"

text \<open>
  Reading or writing a C array outside its bounds is undefined behaviour: the model
  returns \<open>None\<close> there, and every function that touches an array is option-valued.
\<close>

definition arr_get :: "'a list \<Rightarrow> int \<Rightarrow> 'a option" where
  "arr_get xs i = (if 0 \<le> i \<and> i < int (length xs) then Some (xs ! nat i) else None)"

definition arr_set :: "'a list \<Rightarrow> int \<Rightarrow> 'a \<Rightarrow> 'a list option" where
  "arr_set xs i v = (if 0 \<le> i \<and> i < int (length xs) then Some (xs[nat i := v]) else None)"

section \<open>Timer\<close>

record Timer =
  delay :: ulong
  last_event :: ulong

definition Timer_init :: "Timer \<Rightarrow> ulong \<Rightarrow> ulong \<Rightarrow> Timer" where
  "Timer_init tm init_time init_delay = tm\<lparr>last_event := init_time, delay := init_delay\<rparr>"

definition should_signal :: "Timer \<Rightarrow> ulong \<Rightarrow> Timer \<times> bool" where
  "should_signal tm time_now =
     (let diff = time_now - last_event tm in
      if diff \<ge> delay tm then (tm\<lparr>last_event := last_event tm + delay tm\<rparr>, True)
      else (tm, False))"

definition reset_last_event_time :: "Timer \<Rightarrow> ulong \<Rightarrow> Timer" where
  "reset_last_event_time tm time_now = tm\<lparr>last_event := time_now\<rparr>"

text \<open>Polling a timer at a list of times, collecting the answers in order.\<close>

fun poll_timer :: "Timer \<Rightarrow> ulong list \<Rightarrow> Timer \<times> bool list" where
  "poll_timer tm [] = (tm, [])"
| "poll_timer tm (t # ts) =
     (case should_signal tm t of (tm', fired) \<Rightarrow>
        (case poll_timer tm' ts of (tm'', rest) \<Rightarrow> (tm'', fired # rest)))"

text \<open>
  The poll times of a schedule in which the k-th call happens \<open>late\<^sub>k\<close> milliseconds
  after the k-th interval boundary \<open>start + k * interval\<close>.
\<close>

fun boundary_polls :: "ulong \<Rightarrow> ulong \<Rightarrow> ulong list \<Rightarrow> ulong list" where
  "boundary_polls start interval [] = []"
| "boundary_polls start interval (late # lates) =
     (start + interval + late) # boundary_polls (start + interval) interval lates"

section \<open>Debounced button\<close>

datatype Button_signal = RELEASED | PRESSED | NOTHING

record Button =
  debouncing :: bool
  down :: bool
  pin :: int
  button_last_event :: ulong

definition debounce_time :: ulong where
  "debounce_time = 5"

text \<open>
  The pin numbers \<open>button1_pin\<close>, \<open>button2_pin\<close>, \<open>button3_pin\<close> come from the board
  header \<open>funshield.h\<close>; the table holding them is a parameter.
  \<open>digitalRead\<close> is the state of the pins at the moment of the call
  (\<open>True\<close> for \<open>HIGH\<close>); the buttons are active low.
\<close>

definition is_pressed :: "(int \<Rightarrow> bool) \<Rightarrow> Button \<Rightarrow> bool" where
  "is_pressed digitalRead b = (\<not> digitalRead (pin b))"

definition Button_init :: "int list \<Rightarrow> Button \<Rightarrow> int \<Rightarrow> Button option" where
  "Button_init button_pins b index =
     (case arr_get button_pins index of
        None \<Rightarrow> None
      | Some p \<Rightarrow> Some (b\<lparr>debouncing := False, down := False, pin := p, button_last_event := 0\<rparr>))"

definition get_signal :: "(int \<Rightarrow> bool) \<Rightarrow> Button \<Rightarrow> ulong \<Rightarrow> Button \<times> Button_signal" where
  "get_signal digitalRead b time_now =
     (if debouncing b then
        (let time_diff = time_now - button_last_event b in
         ((if time_diff \<ge> debounce_time then b\<lparr>debouncing := False\<rparr> else b), NOTHING))
      else if down b then
        (if \<not> is_pressed digitalRead b
         then (b\<lparr>debouncing := True, down := False, button_last_event := time_now\<rparr>, RELEASED)
         else (b, NOTHING))
      else
        (if is_pressed digitalRead b
         then (b\<lparr>debouncing := True, down := True, button_last_event := time_now\<rparr>, PRESSED)
         else (b, NOTHING)))"

text \<open>
  A sequence of polls of one button: each poll has its time and the pin levels at that
  time.  The signals are collected in order.
\<close>

fun poll_button :: "Button \<Rightarrow> (ulong \<times> (int \<Rightarrow> bool)) list \<Rightarrow> Button \<times> Button_signal list" where
  "poll_button b [] = (b, [])"
| "poll_button b ((t, digitalRead) # ps) =
     (case get_signal digitalRead b t of (b', s) \<Rightarrow>
        (case poll_button b' ps of (b'', ss) \<Rightarrow> (b'', s # ss)))"

text \<open>The signal that belongs to a transition of the raw level to \<open>level\<close>.\<close>

definition edge_of :: "bool \<Rightarrow> Button_signal" where
  "edge_of level = (if level then PRESSED else RELEASED)"

section \<open>Dice engine\<close>

definition dice_types :: "int list" where
  "dice_types = [4, 6, 8, 10, 12, 20, 100]"

definition dice_types_length :: int where
  "dice_types_length = int (length dice_types)"

definition max_dice_amount :: int where
  "max_dice_amount = 9"

definition start_dice_type_index :: int where
  "start_dice_type_index = 1"

definition start_dice_amount :: int where
  "start_dice_amount = 1"

definition clear_memory_value :: int where
  "clear_memory_value = - 1"

record Dice =
  roll_start_time :: ulong
  dice_values :: "int list"
  current_dice_amount :: int
  current_type_index :: int
  last_roll :: int
  is_first_roll :: bool

text \<open>\<open>get_dice_sum\<close>: the loop \<open>for (i = 0; i < current_dice_amount; ++i) sum += dice[i]\<close>.\<close>

function get_dice_sum_loop :: "Dice \<Rightarrow> int \<Rightarrow> int \<Rightarrow> int option" where
  "get_dice_sum_loop d i acc =
     (if i < current_dice_amount d then
        (case arr_get (dice_values d) i of
           None \<Rightarrow> None
         | Some v \<Rightarrow> get_dice_sum_loop d (i + 1) (acc + v))
      else Some acc)"
  by pat_completeness auto
termination
  by (relation "measure (\<lambda>(d, i, acc). nat (current_dice_amount d - i))") auto

declare get_dice_sum_loop.simps [simp del]

definition get_dice_sum :: "Dice \<Rightarrow> int option" where
  "get_dice_sum d = get_dice_sum_loop d 0 0"

text \<open>
  \<open>refresh_all_dice\<close>.  The library function \<open>random\<close> is outside the sketch:
  \<open>rand k bound\<close> is the value its k-th call of this refresh returns when asked for
  a number below \<open>bound\<close>.
\<close>

function refresh_all_dice_loop :: "(nat \<Rightarrow> int \<Rightarrow> int) \<Rightarrow> Dice \<Rightarrow> int \<Rightarrow> Dice option" where
  "refresh_all_dice_loop rand d i =
     (if i < current_dice_amount d then
        (case arr_get dice_types (current_type_index d) of
           None \<Rightarrow> None
         | Some faces \<Rightarrow>
             (case arr_set (dice_values d) i (rand (nat i) faces + 1) of
                None \<Rightarrow> None
              | Some vs \<Rightarrow> refresh_all_dice_loop rand (d\<lparr>dice_values := vs\<rparr>) (i + 1)))
      else Some d)"
  by pat_completeness auto
termination
  by (relation "measure (\<lambda>(rand, d, i). nat (current_dice_amount d - i))") auto

declare refresh_all_dice_loop.simps [simp del]

definition refresh_all_dice :: "(nat \<Rightarrow> int \<Rightarrow> int) \<Rightarrow> Dice \<Rightarrow> Dice option" where
  "refresh_all_dice rand d = refresh_all_dice_loop rand d 0"

definition Dice_init :: "Dice \<Rightarrow> Dice" where
  "Dice_init d = d\<lparr>roll_start_time := 0, current_type_index := start_dice_type_index,
     current_dice_amount := start_dice_amount, last_roll := clear_memory_value,
     is_first_roll := True\<rparr>"

definition start_roll :: "Dice \<Rightarrow> ulong \<Rightarrow> Dice" where
  "start_roll d time_now = d\<lparr>roll_start_time := time_now\<rparr>"

text \<open>
  \<open>finish_roll\<close> returns the new engine, the argument of \<open>randomSeed\<close> when it was
  called, and the sum.
\<close>

definition finish_roll :: "(nat \<Rightarrow> int \<Rightarrow> int) \<Rightarrow> Dice \<Rightarrow> ulong \<Rightarrow> (Dice \<times> ulong option \<times> int) option" where
  "finish_roll rand d time_now =
     (let (d1, seed) =
        (if is_first_roll d
         then (let diff = time_now - roll_start_time d
               in (d\<lparr>is_first_roll := False\<rparr>, Some (diff + time_now)))
         else (d, None))
      in case refresh_all_dice rand d1 of
           None \<Rightarrow> None
         | Some d2 \<Rightarrow>
             (case get_dice_sum d2 of
                None \<Rightarrow> None
              | Some s \<Rightarrow> Some (d2\<lparr>last_roll := s\<rparr>, seed, s)))"

definition next_dice_type :: "Dice \<Rightarrow> Dice" where
  "next_dice_type d =
     (let d1 = d\<lparr>current_type_index := current_type_index d + 1\<rparr>
      in d1\<lparr>current_type_index := current_type_index d1 smod dice_types_length\<rparr>)"

definition get_dice_type :: "Dice \<Rightarrow> int option" where
  "get_dice_type d = arr_get dice_types (current_type_index d)"

function get_max_digits_amount_loop :: "int \<Rightarrow> int \<Rightarrow> int" where
  "get_max_digits_amount_loop max_dice_value digits_amount =
     (if max_dice_value > 0
      then get_max_digits_amount_loop (max_dice_value sdiv 10) (digits_amount + 1)
      else digits_amount)"
  by pat_completeness auto
termination
  by (relation "measure (\<lambda>(v, n). nat v)") (auto simp: signed_divide_int_def sgn_if)

declare get_max_digits_amount_loop.simps [simp del]

definition get_max_digits_amount :: "Dice \<Rightarrow> int option" where
  "get_max_digits_amount d =
     (case arr_get dice_types (current_type_index d) of
        None \<Rightarrow> None
      | Some faces \<Rightarrow> Some (get_max_digits_amount_loop (faces * current_dice_amount d) 0))"

definition next_dice_amount :: "Dice \<Rightarrow> Dice" where
  "next_dice_amount d =
     (let d1 = d\<lparr>current_dice_amount := current_dice_amount d + 1\<rparr>
      in if current_dice_amount d1 > max_dice_amount then d1\<lparr>current_dice_amount := 1\<rparr> else d1)"

definition get_dice_amount :: "Dice \<Rightarrow> int" where
  "get_dice_amount d = current_dice_amount d"

definition reset_roll_memory :: "Dice \<Rightarrow> Dice" where
  "reset_roll_memory d = d\<lparr>last_roll := clear_memory_value\<rparr>"

definition has_roll_in_memory :: "Dice \<Rightarrow> bool" where
  "has_roll_in_memory d = (last_roll d \<noteq> clear_memory_value)"

definition get_last_roll :: "Dice \<Rightarrow> int" where
  "get_last_roll d = last_roll d"

section \<open>Display\<close>

text \<open>
  What one call of the multiplex routine sends to the two shift registers between
  latch low and latch high: the bit order and the two bytes, in the order of the
  \<open>shiftOut\<close> calls.
\<close>

datatype bit_order = MSBFIRST | LSBFIRST

type_synonym shift_frame = "bit_order \<times> byte \<times> byte"

definition empty_glyph :: byte where
  "empty_glyph = 0xFF"

definition d_glyph :: byte where
  "d_glyph = 0xA1"

definition animation_start_frame :: byte where
  "animation_start_frame = 0x80"

definition animation_end_frame :: byte where
  "animation_end_frame = 0x04"

definition display_digits :: int where
  "display_digits = 4"

definition dice_type_digits :: int where
  "dice_type_digits = 2"

definition dice_amount_digits :: int where
  "dice_amount_digits = 1"

definition multiplex_delay :: ulong where
  "multiplex_delay = 1"

definition animation_delay :: ulong where
  "animation_delay = 50"

record Display =
  multiplex_timer :: Timer
  animation_timer :: Timer
  current_animation_frame :: byte
  current_active_index :: int
  display_buffer :: "char list"

text \<open>
  \<open>write_next_number\<close>: the loop variable \<open>i\<close> is an argument; the reference
  parameter \<open>index\<close> is returned with the buffer.
\<close>

function write_next_number_loop :: "char list \<Rightarrow> int \<Rightarrow> int \<Rightarrow> int \<Rightarrow> int \<Rightarrow> (char list \<times> int) option" where
  "write_next_number_loop buf number index digit_limit i =
     (if i < digit_limit then
        (let remainder = number smod 10 in
         case arr_set buf index (char_of (remainder + of_char CHR ''0'')) of
           None \<Rightarrow> None
         | Some buf' \<Rightarrow>
             (let index' = index - 1; number' = number sdiv 10 in
              if number' < 1 then Some (buf', index')
              else write_next_number_loop buf' number' index' digit_limit (i + 1)))
      else Some (buf, index))"
  by pat_completeness auto
termination
  by (relation "measure (\<lambda>(buf, number, index, digit_limit, i). nat (digit_limit - i))") auto

declare write_next_number_loop.simps [simp del]

definition write_next_number :: "Display \<Rightarrow> int \<Rightarrow> int \<Rightarrow> int \<Rightarrow> (Display \<times> int) option" where
  "write_next_number dsp number index digit_limit =
     (case write_next_number_loop (display_buffer dsp) number index digit_limit 0 of
        None \<Rightarrow> None
      | Some (buf, index') \<Rightarrow> Some (dsp\<lparr>display_buffer := buf\<rparr>, index'))"

text \<open>
  \<open>output_char\<close>: the glyph table \<open>digits\<close> comes from \<open>funshield.h\<close> and is a
  parameter.  The comparisons of \<open>ch\<close> with \<open>'0'\<close> and \<open>'9'\<close> are on character codes.
\<close>

definition output_char :: "byte list \<Rightarrow> char \<Rightarrow> byte \<Rightarrow> shift_frame option" where
  "output_char digits ch pos =
     (let glyph =
        (if ch = CHR ''d'' then Some d_glyph
         else if (of_char ch :: int) \<ge> of_char CHR ''0'' \<and> (of_char ch :: int) \<le> of_char CHR ''9''
         then arr_get digits (of_char ch - of_char CHR ''0'')
         else Some empty_glyph)
      in case glyph of
           None \<Rightarrow> None
         | Some g \<Rightarrow> Some (MSBFIRST, g, push_bit (unat pos) 1))"

function erase_others_loop :: "char list \<Rightarrow> int \<Rightarrow> char list option" where
  "erase_others_loop buf i =
     (if i \<ge> 0 then
        (case arr_set buf i CHR '' '' of
           None \<Rightarrow> None
         | Some buf' \<Rightarrow> erase_others_loop buf' (i - 1))
      else Some buf)"
  by pat_completeness auto
termination
  by (relation "measure (\<lambda>(buf, i). nat (i + 1))") auto

declare erase_others_loop.simps [simp del]

definition erase_others :: "Display \<Rightarrow> int \<Rightarrow> Display option" where
  "erase_others dsp index =
     (case erase_others_loop (display_buffer dsp) index of
        None \<Rightarrow> None
      | Some buf \<Rightarrow> Some (dsp\<lparr>display_buffer := buf\<rparr>))"

definition update_active_index :: "Display \<Rightarrow> ulong \<Rightarrow> Display" where
  "update_active_index dsp time_now =
     (case should_signal (multiplex_timer dsp) time_now of
        (tm, fired) \<Rightarrow>
          (let dsp1 = dsp\<lparr>multiplex_timer := tm\<rparr>
           in if fired
              then dsp1\<lparr>current_active_index := (current_active_index dsp1 + 1) smod display_digits\<rparr>
              else dsp1))"

definition output_animation_frame :: "Display \<Rightarrow> shift_frame" where
  "output_animation_frame dsp =
     (LSBFIRST, NOT (current_animation_frame dsp),
      push_bit (nat (current_active_index dsp + 4)) 1)"

definition Display_init :: "Display \<Rightarrow> ulong \<Rightarrow> Display" where
  "Display_init dsp init_time =
     dsp\<lparr>multiplex_timer := Timer_init (multiplex_timer dsp) init_time multiplex_delay,
         animation_timer := Timer_init (animation_timer dsp) init_time animation_delay,
         current_animation_frame := animation_start_frame\<rparr>"

definition next_animation :: "Display \<Rightarrow> Display" where
  "next_animation dsp =
     (let dsp1 = dsp\<lparr>current_animation_frame := drop_bit 1 (current_animation_frame dsp)\<rparr>
      in if current_animation_frame dsp1 < animation_end_frame
         then dsp1\<lparr>current_animation_frame := animation_start_frame\<rparr>
         else dsp1)"

definition multiplex_animation :: "Display \<Rightarrow> ulong \<Rightarrow> int \<Rightarrow> Display \<times> shift_frame" where
  "multiplex_animation dsp time_now max_digits_amount =
     (let dsp1 = update_active_index dsp time_now;
          dsp2 = (if current_active_index dsp1 \<ge> max_digits_amount
                  then dsp1\<lparr>current_active_index := 0\<rparr> else dsp1)
      in (dsp2, output_animation_frame dsp2))"

definition multiplex :: "byte list \<Rightarrow> Display \<Rightarrow> ulong \<Rightarrow> (Display \<times> shift_frame) option" where
  "multiplex digits dsp time_now =
     (let dsp1 = update_active_index dsp time_now in
      case arr_get (display_buffer dsp1) (current_active_index dsp1) of
        None \<Rightarrow> None
      | Some ch \<Rightarrow>
          (case output_char digits ch (word_of_int (current_active_index dsp1)) of
             None \<Rightarrow> None
           | Some fr \<Rightarrow> Some (dsp1, fr)))"

definition write_number :: "Display \<Rightarrow> int \<Rightarrow> Display option" where
  "write_number dsp number =
     (let index = display_digits - 1 in
      case write_next_number dsp number index display_digits of
        None \<Rightarrow> None
      | Some (dsp1, index1) \<Rightarrow> erase_others dsp1 index1)"

definition write_config_string :: "Display \<Rightarrow> int \<Rightarrow> int \<Rightarrow> Display option" where
  "write_config_string dsp amount type =
     (let index = display_digits - 1 in
      case write_next_number dsp type index dice_type_digits of
        None \<Rightarrow> None
      | Some (dsp1, index1) \<Rightarrow>
          (case arr_set (display_buffer dsp1) index1 CHR ''d'' of
             None \<Rightarrow> None
           | Some buf \<Rightarrow>
               (let dsp2 = dsp1\<lparr>display_buffer := buf\<rparr>; index2 = index1 - 1 in
                case write_next_number dsp2 amount index2 dice_amount_digits of
                  None \<Rightarrow> None
                | Some (dsp3, index3) \<Rightarrow> erase_others dsp3 index3)))"

definition prepare_animation :: "Display \<Rightarrow> ulong \<Rightarrow> Display" where
  "prepare_animation dsp time_now =
     dsp\<lparr>current_animation_frame := animation_start_frame,
         animation_timer := reset_last_event_time (animation_timer dsp) time_now\<rparr>"

definition should_animate :: "Display \<Rightarrow> ulong \<Rightarrow> Display \<times> bool" where
  "should_animate dsp time_now =
     (case should_signal (animation_timer dsp) time_now of
        (tm, fired) \<Rightarrow> (dsp\<lparr>animation_timer := tm\<rparr>, fired))"

section \<open>Controller\<close>

datatype Program_state = CONFIG | IDLE | GENERATING

definition roll_button_index :: int where
  "roll_button_index = 0"

definition amount_button_index :: int where
  "amount_button_index = 1"

definition type_button_index :: int where
  "type_button_index = 2"

definition start_state :: Program_state where
  "start_state = CONFIG"

text \<open>The global variables of the sketch.\<close>

record Program =
  current_state :: Program_state
  roll_button :: Button
  type_button :: Button
  amount_button :: Button
  disp :: Display
  dice :: Dice

text \<open>
  What one pass of \<open>loop\<close> reads from outside: the value of \<open>millis()\<close>, the pin
  levels, and the answers of \<open>random\<close>.
\<close>

record tick_input =
  tick_millis :: ulong
  tick_pins :: "int \<Rightarrow> bool"
  tick_random :: "nat \<Rightarrow> int \<Rightarrow> int"

text \<open>Globals have static storage: before the start-up routine runs every field is zero.\<close>

definition zero_timer :: Timer where
  "zero_timer = \<lparr>delay = 0, last_event = 0\<rparr>"

definition zero_button :: Button where
  "zero_button = \<lparr>debouncing = False, down = False, pin = 0, button_last_event = 0\<rparr>"

definition zero_display :: Display where
  "zero_display =
     \<lparr>multiplex_timer = zero_timer, animation_timer = zero_timer,
      current_animation_frame = 0, current_active_index = 0,
      display_buffer = replicate 5 (char_of (0::int))\<rparr>"

definition zero_dice :: Dice where
  "zero_dice =
     \<lparr>roll_start_time = 0, dice_values = replicate 9 0, current_dice_amount = 0,
      current_type_index = 0, last_roll = 0, is_first_roll = False\<rparr>"

definition zero_program :: Program where
  "zero_program =
     \<lparr>current_state = CONFIG,
      roll_button = zero_button, type_button = zero_button, amount_button = zero_button,
      disp = zero_display, dice = zero_dice\<rparr>"

definition init_buttons :: "int list \<Rightarrow> Program \<Rightarrow> Program option" where
  "init_buttons button_pins p =
     (case Button_init button_pins (roll_button p) roll_button_index of
        None \<Rightarrow> None
      | Some rb \<Rightarrow>
          (case Button_init button_pins (amount_button p) amount_button_index of
             None \<Rightarrow> None
           | Some ab \<Rightarrow>
               (case Button_init button_pins (type_button p) type_button_index of
                  None \<Rightarrow> None
                | Some tb \<Rightarrow> Some (p\<lparr>roll_button := rb, amount_button := ab, type_button := tb\<rparr>))))"

definition init_display :: "Program \<Rightarrow> ulong \<Rightarrow> Dice \<Rightarrow> Program option" where
  "init_display p time_now dc =
     (let dsp = Display_init (disp p) time_now in
      case get_dice_type dc of
        None \<Rightarrow> None
      | Some ty \<Rightarrow>
          (case write_config_string dsp (get_dice_amount dc) ty of
             None \<Rightarrow> None
           | Some dsp1 \<Rightarrow> Some (p\<lparr>disp := dsp1\<rparr>)))"

definition sketch_setup :: "int list \<Rightarrow> Program \<Rightarrow> ulong \<Rightarrow> Program option" where
  "sketch_setup button_pins p time_now =
     (let p1 = p\<lparr>current_state := start_state\<rparr> in
      case init_buttons button_pins p1 of
        None \<Rightarrow> None
      | Some p2 \<Rightarrow>
          (let p3 = p2\<lparr>dice := Dice_init (dice p2)\<rparr>
           in init_display p3 time_now (dice p3)))"

text \<open>
  The three cases of the \<open>switch\<close> in \<open>loop\<close>.  Each returns the new globals and
  the argument of \<open>randomSeed\<close> when it was called.
\<close>

definition idle_case :: "Program \<Rightarrow> ulong \<Rightarrow> Button_signal \<Rightarrow> Button_signal \<Rightarrow> Button_signal \<Rightarrow> Program option" where
  "idle_case p time_now roll_signal type_signal amount_signal =
     (let p1 =
        (if roll_signal = PRESSED \<or> \<not> has_roll_in_memory (dice p)
         then p\<lparr>dice := start_roll (dice p) time_now,
                disp := next_animation (prepare_animation (disp p) time_now),
                current_state := GENERATING\<rparr>
         else p)
      in if type_signal = PRESSED \<or> amount_signal = PRESSED
         then (case get_dice_type (dice p1) of
                 None \<Rightarrow> None
               | Some ty \<Rightarrow>
                   (case write_config_string (disp p1) (get_dice_amount (dice p1)) ty of
                      None \<Rightarrow> None
                    | Some dsp \<Rightarrow> Some (p1\<lparr>disp := dsp, current_state := CONFIG\<rparr>)))
         else Some p1)"

definition config_case :: "Program \<Rightarrow> Button_signal \<Rightarrow> Button_signal \<Rightarrow> Button_signal \<Rightarrow> Program option" where
  "config_case p roll_signal type_signal amount_signal =
     (case (if type_signal = PRESSED
            then (let dc = next_dice_type (reset_roll_memory (dice p)) in
                  case get_dice_type dc of
                    None \<Rightarrow> None
                  | Some ty \<Rightarrow>
                      (case write_config_string (disp p) (get_dice_amount dc) ty of
                         None \<Rightarrow> None
                       | Some dsp \<Rightarrow> Some (p\<lparr>dice := dc, disp := dsp\<rparr>)))
            else Some p) of
        None \<Rightarrow> None
      | Some p1 \<Rightarrow>
          (case (if amount_signal = PRESSED
                 then (let dc = next_dice_amount (reset_roll_memory (dice p1)) in
                       case get_dice_type dc of
                         None \<Rightarrow> None
                       | Some ty \<Rightarrow>
                           (case write_config_string (disp p1) (get_dice_amount dc) ty of
                              None \<Rightarrow> None
                            | Some dsp \<Rightarrow> Some (p1\<lparr>dice := dc, disp := dsp\<rparr>)))
                 else Some p1) of
             None \<Rightarrow> None
           | Some p2 \<Rightarrow>
               (if roll_signal = PRESSED
                then (case write_number (disp p2) (get_last_roll (dice p2)) of
                        None \<Rightarrow> None
                      | Some dsp \<Rightarrow> Some (p2\<lparr>disp := dsp, current_state := IDLE\<rparr>))
                else Some p2)))"

definition generating_case :: "Program \<Rightarrow> tick_input \<Rightarrow> Button_signal \<Rightarrow> (Program \<times> ulong option) option" where
  "generating_case p inp roll_signal =
     (if roll_signal = RELEASED
      then (case finish_roll (tick_random inp) (dice p) (tick_millis inp) of
              None \<Rightarrow> None
            | Some (dc, seed, r) \<Rightarrow>
                (case write_number (disp p) r of
                   None \<Rightarrow> None
                 | Some dsp \<Rightarrow> Some (p\<lparr>dice := dc, disp := dsp, current_state := IDLE\<rparr>, seed)))
      else (case should_animate (disp p) (tick_millis inp) of
              (dsp, fired) \<Rightarrow>
                Some (p\<lparr>disp := (if fired then next_animation dsp else dsp)\<rparr>, None)))"

text \<open>The display service at the end of \<open>loop\<close>.\<close>

definition loop_multiplex :: "byte list \<Rightarrow> Program \<Rightarrow> ulong \<Rightarrow> (Program \<times> shift_frame) option" where
  "loop_multiplex digits p time_now =
     (if current_state p = GENERATING
      then (case get_max_digits_amount (dice p) of
              None \<Rightarrow> None
            | Some n \<Rightarrow>
                (case multiplex_animation (disp p) time_now n of
                   (dsp, fr) \<Rightarrow> Some (p\<lparr>disp := dsp\<rparr>, fr)))
      else (case multiplex digits (disp p) time_now of
              None \<Rightarrow> None
            | Some (dsp, fr) \<Rightarrow> Some (p\<lparr>disp := dsp\<rparr>, fr)))"

text \<open>
  The state handling of \<open>loop\<close> up to the end of the \<open>switch\<close>: the three buttons are
  polled in the order roll, type, amount, then the case of the current state runs.
\<close>

definition loop_switch :: "Program \<Rightarrow> tick_input \<Rightarrow> (Program \<times> ulong option) option" where
  "loop_switch p inp =
     (let time_now = tick_millis inp in
      case get_signal (tick_pins inp) (roll_button p) time_now of (rb, roll_signal) \<Rightarrow>
      case get_signal (tick_pins inp) (type_button p) time_now of (tb, type_signal) \<Rightarrow>
      case get_signal (tick_pins inp) (amount_button p) time_now of (ab, amount_signal) \<Rightarrow>
        (let p1 = p\<lparr>roll_button := rb, type_button := tb, amount_button := ab\<rparr> in
         case current_state p1 of
           IDLE \<Rightarrow>
             (case idle_case p1 time_now roll_signal type_signal amount_signal of
                None \<Rightarrow> None
              | Some p2 \<Rightarrow> Some (p2, None))
         | CONFIG \<Rightarrow>
             (case config_case p1 roll_signal type_signal amount_signal of
                None \<Rightarrow> None
              | Some p2 \<Rightarrow> Some (p2, None))
         | GENERATING \<Rightarrow> generating_case p1 inp roll_signal))"

text \<open>
  One pass of \<open>loop\<close>: the new globals, the frame sent to the shift registers, and the
  argument of \<open>randomSeed\<close> when it was called.
\<close>

definition loop :: "byte list \<Rightarrow> Program \<Rightarrow> tick_input \<Rightarrow> (Program \<times> shift_frame \<times> ulong option) option" where
  "loop digits p inp =
     (case loop_switch p inp of
        None \<Rightarrow> None
      | Some (p1, seed) \<Rightarrow>
          (case loop_multiplex digits p1 (tick_millis inp) of
             None \<Rightarrow> None
           | Some (p2, fr) \<Rightarrow> Some (p2, fr, seed)))"

section \<open>Decimal notation, as the specification words it\<close>

text \<open>
  The specification speaks of the decimal digits of a number, right-justified in a
  field and left-padded with blanks.  These definitions say that directly, without
  reference to the rendering code: \<open>decimal n\<close> is the digit string of a non-negative
  \<open>n\<close>, most significant digit first.
\<close>

definition digit_char :: "int \<Rightarrow> char" where
  "digit_char d = ''0123456789'' ! nat d"

function decimal :: "int \<Rightarrow> string" where
  "decimal n = (if n < 10 then [digit_char n] else decimal (n div 10) @ [digit_char (n mod 10)])"
  by pat_completeness auto
termination
  by (relation "measure nat") auto

declare decimal.simps [simp del]

definition right_justified :: "nat \<Rightarrow> string \<Rightarrow> string" where
  "right_justified width s = replicate (width - length s) CHR '' '' @ s"

section \<open>Sequences of configuration calls\<close>

text \<open>The two operations that change the configuration, and a run of them.\<close>

datatype config_op = NEXT_TYPE | NEXT_AMOUNT

fun apply_config_ops :: "Dice \<Rightarrow> config_op list \<Rightarrow> Dice" where
  "apply_config_ops d [] = d"
| "apply_config_ops d (NEXT_TYPE # ops) = apply_config_ops (next_dice_type d) ops"
| "apply_config_ops d (NEXT_AMOUNT # ops) = apply_config_ops (next_dice_amount d) ops"

text \<open>The type index points into the table and the amount is between 1 and 9.\<close>

definition dice_config_ok :: "Dice \<Rightarrow> bool" where
  "dice_config_ok d \<longleftrightarrow>
     0 \<le> current_type_index d \<and> current_type_index d < dice_types_length
     \<and> 1 \<le> current_dice_amount d \<and> current_dice_amount d \<le> max_dice_amount"

section \<open>Reading one pass of the loop\<close>

text \<open>
  The signal each button returns in a pass of \<open>loop\<close> that starts in \<open>p\<close> with
  input \<open>inp\<close>, and the globals once the three buttons have been polled.
\<close>

definition roll_signal_of :: "Program \<Rightarrow> tick_input \<Rightarrow> Button_signal" where
  "roll_signal_of p inp = snd (get_signal (tick_pins inp) (roll_button p) (tick_millis inp))"

definition type_signal_of :: "Program \<Rightarrow> tick_input \<Rightarrow> Button_signal" where
  "type_signal_of p inp = snd (get_signal (tick_pins inp) (type_button p) (tick_millis inp))"

definition amount_signal_of :: "Program \<Rightarrow> tick_input \<Rightarrow> Button_signal" where
  "amount_signal_of p inp = snd (get_signal (tick_pins inp) (amount_button p) (tick_millis inp))"

definition polled :: "Program \<Rightarrow> tick_input \<Rightarrow> Program" where
  "polled p inp =
     p\<lparr>roll_button := fst (get_signal (tick_pins inp) (roll_button p) (tick_millis inp)),
       type_button := fst (get_signal (tick_pins inp) (type_button p) (tick_millis inp)),
       amount_button := fst (get_signal (tick_pins inp) (amount_button p) (tick_millis inp))\<rparr>"

text \<open>
  The shape of the data that the sketch maintains: the display buffer has its five
  characters and the active position is one of the four digits; the dice array has its
  nine entries and the configuration is valid.
\<close>

definition display_ok :: "Display \<Rightarrow> bool" where
  "display_ok dsp \<longleftrightarrow>
     length (display_buffer dsp) = 5
     \<and> 0 \<le> current_active_index dsp \<and> current_active_index dsp < display_digits"

definition program_ok :: "Program \<Rightarrow> bool" where
  "program_ok p \<longleftrightarrow>
     dice_config_ok (dice p) \<and> length (dice_values (dice p)) = 9 \<and> display_ok (disp p)"

text \<open>
  The dice engine after the \<open>CONFIG\<close> case has handled the type and amount signals.
\<close>

definition config_dice :: "Button_signal \<Rightarrow> Button_signal \<Rightarrow> Dice \<Rightarrow> Dice" where
  "config_dice type_signal amount_signal d =
     (let d1 = (if type_signal = PRESSED then next_dice_type (reset_roll_memory d) else d)
      in if amount_signal = PRESSED then next_dice_amount (reset_roll_memory d1) else d1)"

text \<open>
  The four cells that show a configuration: the amount, the \<open>d\<close> marker and the last
  two digits of the type, with a leading blank when the type has one digit.
\<close>

definition config_layout :: "int \<Rightarrow> int \<Rightarrow> string" where
  "config_layout amount type =
     (if type < 10 then [CHR '' '', digit_char amount, CHR ''d'', digit_char type]
      else [digit_char amount, CHR ''d'', digit_char (type div 10 mod 10),
            digit_char (type mod 10)])"

section \<open>Concrete inputs\<close>

text \<open>
  A released, settled button on pin 15, and a button that registered a press at time 0
  and is in the cooldown of that edge.
\<close>

definition button_up :: Button where
  "button_up = \<lparr>debouncing = False, down = False, pin = 15, button_last_event = 0\<rparr>"

definition button_down_cooling :: Button where
  "button_down_cooling = \<lparr>debouncing = True, down = True, pin = 15, button_last_event = 0\<rparr>"

text \<open>A dice engine configured as 9d100.\<close>

definition dice_9d100 :: Dice where
  "dice_9d100 = zero_dice\<lparr>current_dice_amount := 9, current_type_index := 6\<rparr>"

text \<open>
  The four cells that \<open>write_config_string\<close> leaves in a display whose buffer held zeros.
\<close>

definition config_cells :: "int \<Rightarrow> int \<Rightarrow> string option" where
  "config_cells amount type =
     map_option (\<lambda>dsp. take 4 (display_buffer dsp)) (write_config_string zero_display amount type)"

text \<open>
  A glyph table with ten entries and a table of three button pins, standing for the
  tables declared in \<open>funshield.h\<close>.
\<close>

definition sample_digits :: "byte list" where
  "sample_digits = [0xC0, 0xF9, 0xA4, 0xB0, 0x99, 0x92, 0x82, 0xF8, 0x80, 0x90]"

definition sample_button_pins :: "int list" where
  "sample_button_pins = [15, 16, 17]"

text \<open>
  The globals after start-up at time 0 and one pass at time 10 in which the roll button
  is pressed: the controller is in \<open>IDLE\<close> and no roll is in memory.
\<close>

definition idle_empty :: Program where
  "idle_empty =
     \<lparr>current_state = IDLE,
      roll_button = \<lparr>debouncing = True, down = True, pin = 15, button_last_event = 10\<rparr>,
      type_button = \<lparr>debouncing = False, down = False, pin = 17, button_last_event = 0\<rparr>,
      amount_button = \<lparr>debouncing = False, down = False, pin = 16, button_last_event = 0\<rparr>,
      disp = \<lparr>multiplex_timer = \<lparr>delay = 1, last_event = 1\<rparr>,
              animation_timer = \<lparr>delay = 50, last_event = 0\<rparr>,
              current_animation_frame = 0x80, current_active_index = 1,
              display_buffer = [CHR '' '', CHR '' '', CHR '' '', CHR ''/'', char_of (0::int)]\<rparr>,
      dice = Dice_init zero_dice\<rparr>"

text \<open>Inputs of single passes: which pins read low, at which time.\<close>

definition roll_pressed_tick :: tick_input where
  "roll_pressed_tick = \<lparr>tick_millis = 10, tick_pins = (\<lambda>pin. pin \<noteq> 15), tick_random = (\<lambda>k bound. 0)\<rparr>"

definition type_pressed_tick :: tick_input where
  "type_pressed_tick = \<lparr>tick_millis = 11, tick_pins = (\<lambda>pin. pin \<noteq> 17), tick_random = (\<lambda>k bound. 0)\<rparr>"

definition all_released_tick :: tick_input where
  "all_released_tick = \<lparr>tick_millis = 11, tick_pins = (\<lambda>pin. True), tick_random = (\<lambda>k bound. 0)\<rparr>"

text \<open>
  The globals after a first roll of 4 with one six-sided die: in \<open>IDLE\<close>, with a roll
  in memory and all buttons settled.
\<close>

definition idle_rolled :: Program where
  "idle_rolled =
     \<lparr>current_state = IDLE,
      roll_button = \<lparr>debouncing = False, down = False, pin = 15, button_last_event = 40\<rparr>,
      type_button = \<lparr>debouncing = False, down = False, pin = 17, button_last_event = 0\<rparr>,
      amount_button = \<lparr>debouncing = False, down = False, pin = 16, button_last_event = 0\<rparr>,
      disp = \<lparr>multiplex_timer = \<lparr>delay = 1, last_event = 5\<rparr>,
              animation_timer = \<lparr>delay = 50, last_event = 11\<rparr>,
              current_animation_frame = 0x40, current_active_index = 2,
              display_buffer = [CHR '' '', CHR '' '', CHR '' '', CHR ''4'', char_of (0::int)]\<rparr>,
      dice = (Dice_init zero_dice)\<lparr>roll_start_time := 11, dice_values := [4, 0, 0, 0, 0, 0, 0, 0, 0],
               last_roll := 4, is_first_roll := False\<rparr>\<rparr>"

definition roll_and_amount_pressed_tick :: tick_input where
  "roll_and_amount_pressed_tick =
     \<lparr>tick_millis = 70, tick_pins = (\<lambda>pin. pin = 17), tick_random = (\<lambda>k bound. 0)\<rparr>"

text \<open>Several passes of \<open>loop\<close> in a row, and the passes that lead to a first roll.\<close>

fun run_ticks :: "byte list \<Rightarrow> Program \<Rightarrow> tick_input list \<Rightarrow> Program option" where
  "run_ticks digits p [] = Some p"
| "run_ticks digits p (inp # inps) =
     (case loop digits p inp of
        None \<Rightarrow> None
      | Some (p', out) \<Rightarrow> run_ticks digits p' inps)"

definition first_roll_ticks :: "tick_input list" where
  "first_roll_ticks =
     [\<lparr>tick_millis = 10, tick_pins = (\<lambda>pin. pin \<noteq> 15), tick_random = (\<lambda>k bound. 3)\<rparr>,
      \<lparr>tick_millis = 11, tick_pins = (\<lambda>pin. pin \<noteq> 15), tick_random = (\<lambda>k bound. 3)\<rparr>,
      \<lparr>tick_millis = 20, tick_pins = (\<lambda>pin. pin \<noteq> 15), tick_random = (\<lambda>k bound. 3)\<rparr>,
      \<lparr>tick_millis = 40, tick_pins = (\<lambda>pin. True), tick_random = (\<lambda>k bound. 3)\<rparr>,
      \<lparr>tick_millis = 50, tick_pins = (\<lambda>pin. True), tick_random = (\<lambda>k bound. 3)\<rparr>]"

text \<open>
  The globals right after start-up, and those after the first roll followed by a press of
  the type button in \<open>IDLE\<close>: both in \<open>CONFIG\<close>, the first without and the second
  with a roll in memory.
\<close>

definition config_start :: Program where
  "config_start =
     \<lparr>current_state = CONFIG,
      roll_button = \<lparr>debouncing = False, down = False, pin = 15, button_last_event = 0\<rparr>,
      type_button = \<lparr>debouncing = False, down = False, pin = 17, button_last_event = 0\<rparr>,
      amount_button = \<lparr>debouncing = False, down = False, pin = 16, button_last_event = 0\<rparr>,
      disp = \<lparr>multiplex_timer = \<lparr>delay = 1, last_event = 0\<rparr>,
              animation_timer = \<lparr>delay = 50, last_event = 0\<rparr>,
              current_animation_frame = 0x80, current_active_index = 0,
              display_buffer = [CHR '' '', CHR ''1'', CHR ''d'', CHR ''6'', char_of (0::int)]\<rparr>,
      dice = Dice_init zero_dice\<rparr>"

definition config_rolled :: Program where
  "config_rolled =
     \<lparr>current_state = CONFIG,
      roll_button = \<lparr>debouncing = False, down = False, pin = 15, button_last_event = 40\<rparr>,
      type_button = \<lparr>debouncing = True, down = True, pin = 17, button_last_event = 70\<rparr>,
      amount_button = \<lparr>debouncing = False, down = False, pin = 16, button_last_event = 0\<rparr>,
      disp = \<lparr>multiplex_timer = \<lparr>delay = 1, last_event = 6\<rparr>,
              animation_timer = \<lparr>delay = 50, last_event = 11\<rparr>,
              current_animation_frame = 0x40, current_active_index = 3,
              display_buffer = [CHR '' '', CHR ''1'', CHR ''d'', CHR ''6'', char_of (0::int)]\<rparr>,
      dice = (Dice_init zero_dice)\<lparr>roll_start_time := 11, dice_values := [4, 0, 0, 0, 0, 0, 0, 0, 0],
               last_roll := 4, is_first_roll := False\<rparr>\<rparr>"

definition type_pressed_late_tick :: tick_input where
  "type_pressed_late_tick =
     \<lparr>tick_millis = 70, tick_pins = (\<lambda>pin. pin \<noteq> 17), tick_random = (\<lambda>k bound. 3)\<rparr>"

definition amount_pressed_tick :: tick_input where
  "amount_pressed_tick =
     \<lparr>tick_millis = 80, tick_pins = (\<lambda>pin. pin \<noteq> 16), tick_random = (\<lambda>k bound. 3)\<rparr>"

section \<open>Truncating division on non-negative numbers\<close>

lemma smod_nonneg: "0 \<le> a \<Longrightarrow> 0 < b \<Longrightarrow> (a :: int) smod b = a mod b"
  by (simp add: signed_modulo_int_def sgn_if)

lemma sdiv_nonneg: "0 \<le> a \<Longrightarrow> 0 < b \<Longrightarrow> (a :: int) sdiv b = a div b"
  by (simp add: signed_divide_int_def sgn_if)

section \<open>Timer: the contract of \<open>should_signal\<close>\<close>

lemma fires_at_boundary:
  fixes interval late start :: ulong
  assumes "unat interval + unat late < 2 ^ 32"
  shows "interval \<le> start + interval + late - start"
proof -
  have "start + interval + late - start = interval + late"
    by (simp only: add.assoc add_diff_cancel_left')
  moreover have "interval \<le> interval + late"
    using assms by (simp add: no_olen_add_nat)
  ultimately show ?thesis
    by (simp only:)
qed

lemma poll_boundary_polls:
  "\<forall>late \<in> set lates. unat (delay tm) + unat late < 2 ^ 32 \<Longrightarrow>
   poll_timer tm (boundary_polls (last_event tm) (delay tm) lates) =
     (tm\<lparr>last_event := last_event tm + of_nat (length lates) * delay tm\<rparr>,
      replicate (length lates) True)"
proof (induction lates arbitrary: tm)
  case Nil
  then show ?case by simp
next
  case (Cons late lates)
  let ?tm' = "tm\<lparr>last_event := last_event tm + delay tm\<rparr>"
  have "delay tm \<le> last_event tm + delay tm + late - last_event tm"
    using Cons.prems by (intro fires_at_boundary) simp
  then have fire: "should_signal tm (last_event tm + delay tm + late) = (?tm', True)"
    by (simp only: should_signal_def Let_def if_True)
  have "\<forall>late \<in> set lates. unat (delay ?tm') + unat late < 2 ^ 32"
    using Cons.prems by simp
  from Cons.IH [OF this]
  have "poll_timer ?tm' (boundary_polls (last_event tm + delay tm) (delay tm) lates) =
     (tm\<lparr>last_event := last_event tm + delay tm + of_nat (length lates) * delay tm\<rparr>,
      replicate (length lates) True)"
    by simp
  moreover have "last_event tm + delay tm + of_nat (length lates) * delay tm
      = last_event tm + of_nat (length (late # lates)) * delay tm"
    by (simp add: distrib_right)
  ultimately show ?case
    using fire by simp
qed


lemma poll_timer_deadline:
  "last_event (fst (poll_timer tm ts)) =
     last_event tm + of_nat (length (filter id (snd (poll_timer tm ts)))) * delay tm
   \<and> delay (fst (poll_timer tm ts)) = delay tm"
proof (induction ts arbitrary: tm)
  case Nil
  then show ?case by simp
next
  case (Cons t ts)
  show ?case
  proof (cases "delay tm \<le> t - last_event tm")
    case True
    let ?tm' = "tm\<lparr>last_event := last_event tm + delay tm\<rparr>"
    from True have "should_signal tm t = (?tm', True)"
      by (simp add: should_signal_def)
    then have step: "poll_timer tm (t # ts) = (fst (poll_timer ?tm' ts), True # snd (poll_timer ?tm' ts))"
      by (simp add: split_beta)
    have "last_event tm + delay tm + of_nat n * delay tm = last_event tm + of_nat (Suc n) * delay tm" for n
      by (simp add: distrib_right)
    with Cons.IH [of ?tm'] step show ?thesis
      by simp
  next
    case False
    then have "should_signal tm t = (tm, False)"
      by (simp add: should_signal_def)
    with Cons.IH [of tm] show ?thesis
      by (simp add: split_beta)
  qed
qed

lemma second_call_silent:
  assumes "delay tm \<le> now - last_event tm" and "now - last_event tm - delay tm < delay tm"
  shows "poll_timer tm [now, now] = (tm\<lparr>last_event := last_event tm + delay tm\<rparr>, [True, False])"
proof -
  let ?tm' = "tm\<lparr>last_event := last_event tm + delay tm\<rparr>"
  have first: "should_signal tm now = (?tm', True)"
    using assms(1) by (simp add: should_signal_def)
  have "\<not> delay tm \<le> now - last_event tm - delay tm"
    using assms(2) by (simp only: not_le)
  then have "\<not> delay tm \<le> now - (last_event tm + delay tm)"
    by (simp add: diff_diff_eq)
  then have "\<not> delay ?tm' \<le> now - last_event ?tm'"
    by simp
  then have "should_signal ?tm' now = (?tm', False)"
    by (simp add: should_signal_def)
  with first show ?thesis
    by simp
qed

text \<open>
  Claim C1.  A call of \<open>should_signal\<close> answers true exactly when the wrapping
  difference \<open>time_now - last_event\<close> is at least the interval, and then (and only then)
  moves \<open>last_event\<close> forward by the interval, not to \<open>time_now\<close>.  Consequently:
  when the k-th call happens at or after the k-th boundary \<open>last_event + k * delay\<close>
  (by any lateness that keeps the 32-bit difference from wrapping), every call fires and
  the deadline ends exactly on the last boundary; a second call at the same time, before
  the next boundary, does not fire; and after any sequence of calls the deadline is the
  start plus the number of firings times the interval.  All arithmetic is modulo
  \<open>2^32\<close>, so this holds across the overflow of the millisecond counter.
\<close>

theorem timer_should_signal_contract:
  "(snd (should_signal tm now) \<longleftrightarrow> delay tm \<le> now - last_event tm)
   \<and> fst (should_signal tm now) =
       (if delay tm \<le> now - last_event tm
        then tm\<lparr>last_event := last_event tm + delay tm\<rparr> else tm)
   \<and> ((\<forall>late \<in> set lates. unat (delay tm) + unat late < 2 ^ 32) \<longrightarrow>
        poll_timer tm (boundary_polls (last_event tm) (delay tm) lates) =
          (tm\<lparr>last_event := last_event tm + of_nat (length lates) * delay tm\<rparr>,
           replicate (length lates) True))
   \<and> (delay tm \<le> now - last_event tm \<and> now - last_event tm - delay tm < delay tm \<longrightarrow>
        poll_timer tm [now, now] =
          (tm\<lparr>last_event := last_event tm + delay tm\<rparr>, [True, False]))
   \<and> last_event (fst (poll_timer tm ts)) =
       last_event tm + of_nat (length (filter id (snd (poll_timer tm ts)))) * delay tm"
proof (intro conjI impI)
  show "snd (should_signal tm now) \<longleftrightarrow> delay tm \<le> now - last_event tm"
    by (simp add: should_signal_def)
  show "fst (should_signal tm now) =
       (if delay tm \<le> now - last_event tm
        then tm\<lparr>last_event := last_event tm + delay tm\<rparr> else tm)"
    by (simp add: should_signal_def)
  show "poll_timer tm (boundary_polls (last_event tm) (delay tm) lates) =
          (tm\<lparr>last_event := last_event tm + of_nat (length lates) * delay tm\<rparr>,
           replicate (length lates) True)"
    if "\<forall>late \<in> set lates. unat (delay tm) + unat late < 2 ^ 32"
    using that by (rule poll_boundary_polls)
  show "poll_timer tm [now, now] =
          (tm\<lparr>last_event := last_event tm + delay tm\<rparr>, [True, False])"
    if "delay tm \<le> now - last_event tm \<and> now - last_event tm - delay tm < delay tm"
    using that by (intro second_call_silent) simp_all
  show "last_event (fst (poll_timer tm ts)) =
       last_event tm + of_nat (length (filter id (snd (poll_timer tm ts)))) * delay tm"
    using poll_timer_deadline [of tm ts] by (rule conjunct1)
qed

theorem timer_should_signal_contract_witness:
  "unat (50 :: ulong) + unat (0 :: ulong) < 2 ^ 32
   \<and> unat (50 :: ulong) + unat (3 :: ulong) < 2 ^ 32
   \<and> unat (50 :: ulong) + unat (60 :: ulong) < 2 ^ 32
   \<and> boundary_polls 4294967264 50 [0, 3, 60] = [18, 71, 178]
   \<and> poll_timer \<lparr>delay = 50, last_event = 4294967264\<rparr> [18, 71, 178] =
       (\<lparr>delay = 50, last_event = 118\<rparr>, [True, True, True])
   \<and> (50 :: ulong) \<le> 18 - 4294967264 \<and> (18 :: ulong) - 4294967264 - 50 < 50
   \<and> poll_timer \<lparr>delay = 50, last_event = 4294967264\<rparr> [18, 18] =
       (\<lparr>delay = 50, last_event = 18\<rparr>, [True, False])"
  using timer_should_signal_contract
    [of "\<lparr>delay = 50, last_event = 4294967264\<rparr>" 18 "[0, 3, 60]" "[18]"]
  by (simp add: should_signal_def)

section \<open>Button: one edge per transition\<close>

lemma get_signal_pin: "pin (fst (get_signal dr b t)) = pin b"
  by (simp add: get_signal_def)

lemma is_pressed_cong: "pin b' = pin b \<Longrightarrow> is_pressed dr b' = is_pressed dr b"
  by (simp add: is_pressed_def)

lemma get_signal_cooldown:
  "debouncing b \<Longrightarrow> snd (get_signal dr b t) = NOTHING"
  by (simp add: get_signal_def)

lemma poll_button_append:
  "poll_button b (ps @ qs) =
     (fst (poll_button (fst (poll_button b ps)) qs),
      snd (poll_button b ps) @ snd (poll_button (fst (poll_button b ps)) qs))"
proof (induction ps arbitrary: b)
  case Nil
  then show ?case by simp
next
  case (Cons p ps)
  obtain t dr where p: "p = (t, dr)" by (cases p)
  show ?case
    unfolding p by (simp add: split_beta Cons.IH)
qed

lemma poll_button_bounce:
  assumes "debouncing b" and "\<forall>(t, dr) \<in> set bounce. t - button_last_event b < debounce_time"
  shows "poll_button b bounce = (b, replicate (length bounce) NOTHING)"
  using assms
proof (induction bounce)
  case Nil
  then show ?case by simp
next
  case (Cons p ps)
  obtain t dr where p: "p = (t, dr)" by (cases p)
  from Cons.prems p have "t - button_last_event b < debounce_time" by simp
  then have "\<not> debounce_time \<le> t - button_last_event b" by (simp only: not_le)
  with Cons.prems(1) have "get_signal dr b t = (b, NOTHING)"
    by (simp add: get_signal_def)
  moreover from Cons have "poll_button b ps = (b, replicate (length ps) NOTHING)" by simp
  ultimately show ?case unfolding p by simp
qed

lemma poll_button_steady:
  assumes "down b = level" and "\<forall>(t, dr) \<in> set rest. is_pressed dr b = level"
  shows "snd (poll_button b rest) = replicate (length rest) NOTHING
         \<and> down (fst (poll_button b rest)) = level"
  using assms
proof (induction rest arbitrary: b)
  case Nil
  then show ?case by simp
next
  case (Cons p ps)
  obtain t dr where p: "p = (t, dr)" by (cases p)
  from Cons.prems p have lvl: "is_pressed dr b = level" by simp
  let ?b' = "fst (get_signal dr b t)"
  have sig: "snd (get_signal dr b t) = NOTHING"
    using Cons.prems(1) lvl by (simp add: get_signal_def)
  have dn: "down ?b' = level"
    using Cons.prems(1) lvl by (simp add: get_signal_def)
  have pn: "pin ?b' = pin b" by (rule get_signal_pin)
  have "\<forall>(t, dr) \<in> set ps. is_pressed dr ?b' = level"
    using Cons.prems(2) pn by (auto simp: is_pressed_def)
  from Cons.IH [OF dn this] sig show ?case
    unfolding p by (simp add: split_beta)
qed

lemma poll_button_idle:
  assumes "\<not> debouncing b" and "\<forall>(t, dr) \<in> set pre. is_pressed dr b = down b"
  shows "poll_button b pre = (b, replicate (length pre) NOTHING)"
  using assms
proof (induction pre)
  case Nil
  then show ?case by simp
next
  case (Cons p ps)
  obtain t dr where p: "p = (t, dr)" by (cases p)
  from Cons.prems p have "is_pressed dr b = down b" by simp
  with Cons.prems(1) have "get_signal dr b t = (b, NOTHING)"
    by (simp add: get_signal_def)
  moreover from Cons have "poll_button b ps = (b, replicate (length ps) NOTHING)" by simp
  ultimately show ?case unfolding p by simp
qed

lemma poll_button_transition:
  assumes "\<not> debouncing b" and "down b = (\<not> level)" and "is_pressed dr0 b = level"
    and "\<forall>(t, dr) \<in> set bounce. t - t0 < debounce_time"
    and "\<forall>(t, dr) \<in> set rest. is_pressed dr b = level"
  shows "snd (poll_button b ((t0, dr0) # bounce @ rest)) =
           edge_of level # replicate (length bounce + length rest) NOTHING
         \<and> down (fst (poll_button b ((t0, dr0) # bounce @ rest))) = level"
proof -
  define b1 where "b1 = b\<lparr>debouncing := True, down := level, button_last_event := t0\<rparr>"
  have first: "get_signal dr0 b t0 = (b1, edge_of level)"
    using assms(1-3) by (cases level) (simp_all add: get_signal_def b1_def edge_of_def)
  have b1: "debouncing b1" "button_last_event b1 = t0" "down b1 = level" "pin b1 = pin b"
    by (simp_all add: b1_def)
  have bounce: "poll_button b1 bounce = (b1, replicate (length bounce) NOTHING)"
    using assms(4) b1 by (intro poll_button_bounce) simp_all
  have "\<forall>(t, dr) \<in> set rest. is_pressed dr b1 = level"
    using assms(5) b1(4) by (auto simp: is_pressed_def)
  from poll_button_steady [OF b1(3) this]
  have rest: "snd (poll_button b1 rest) = replicate (length rest) NOTHING"
    and dn: "down (fst (poll_button b1 rest)) = level"
    by simp_all
  have "poll_button b ((t0, dr0) # bounce @ rest) =
      (fst (poll_button b1 rest), edge_of level # replicate (length bounce + length rest) NOTHING)"
    using first bounce rest
    by (simp add: poll_button_append split_beta replicate_add)
  with dn show ?thesis
    by simp
qed

text \<open>
  The pin is not sampled during a cooldown.  A level change that happens inside the
  cooldown of the previous edge is therefore reported by the first poll after the poll
  that ends the cooldown.
\<close>

lemma poll_button_after_cooldown:
  assumes "debouncing b" and "down b = (\<not> level)"
    and "\<forall>(t, dr) \<in> set cool. t - button_last_event b < debounce_time"
    and "debounce_time \<le> t1 - button_last_event b"
    and "\<forall>(t, dr) \<in> set ((t2, dr2) # rest). is_pressed dr b = level"
  shows "snd (poll_button b (cool @ (t1, dr1) # (t2, dr2) # rest)) =
           replicate (length cool + 1) NOTHING @
           edge_of level # replicate (length rest) NOTHING"
proof -
  let ?b1 = "b\<lparr>debouncing := False\<rparr>"
  have cool: "poll_button b cool = (b, replicate (length cool) NOTHING)"
    using assms(1,3) by (rule poll_button_bounce)
  have leave: "get_signal dr1 b t1 = (?b1, NOTHING)"
    using assms(1,4) by (simp add: get_signal_def)
  have "snd (poll_button ?b1 ((t2, dr2) # [] @ rest)) =
           edge_of level # replicate (length ([] :: (ulong \<times> (int \<Rightarrow> bool)) list) + length rest) NOTHING
         \<and> down (fst (poll_button ?b1 ((t2, dr2) # [] @ rest))) = level"
    using assms(2,5) by (intro poll_button_transition) (auto simp: is_pressed_def)
  then have "snd (poll_button ?b1 ((t2, dr2) # rest)) = edge_of level # replicate (length rest) NOTHING"
    by simp
  with leave have "snd (poll_button b ((t1, dr1) # (t2, dr2) # rest)) =
      NOTHING # edge_of level # replicate (length rest) NOTHING"
    by (simp add: split_beta)
  with cool show ?thesis
    by (simp only: poll_button_append [of b cool] fst_conv snd_conv replicate_add
        replicate_append_same) simp
qed

text \<open>
  Claim C2.  Every call made while the cooldown is active returns \<open>NOTHING\<close>, also
  the call that ends the cooldown.  Take a settled button (not in cooldown) whose
  \<open>down\<close> flag disagrees with the new raw level.  Over any sequence of polls in which
  the raw level first reads the old level, then reads the new level once (at time
  \<open>t0\<close>), may bounce arbitrarily while less than the 5 ms debounce window has passed
  since \<open>t0\<close>, and reads the new level from then on, exactly one signal other than
  \<open>NOTHING\<close> is returned: the edge of that transition (\<open>PRESSED\<close> for a pressed
  reading while \<open>down\<close> is false, \<open>RELEASED\<close> for a released reading while \<open>down\<close> is
  true), at the poll that first reads the new level; every later poll returns
  \<open>NOTHING\<close>, however many there are.  When the level changes while the button is
  still in the cooldown of the previous edge and then stays, the pin is first read after
  the cooldown: the poll that ends the cooldown returns \<open>NOTHING\<close>, the next poll
  returns the one edge signal, and all later polls return \<open>NOTHING\<close>.
\<close>

theorem button_one_edge_per_transition:
  "(debouncing b \<longrightarrow> snd (get_signal digitalRead b time_now) = NOTHING)
   \<and> (\<not> debouncing b \<and> down b = (\<not> level)
        \<and> (\<forall>(t, dr) \<in> set pre. is_pressed dr b = (\<not> level))
        \<and> is_pressed dr0 b = level
        \<and> (\<forall>(t, dr) \<in> set bounce. t - t0 < debounce_time)
        \<and> (\<forall>(t, dr) \<in> set rest. is_pressed dr b = level) \<longrightarrow>
        snd (poll_button b (pre @ (t0, dr0) # bounce @ rest)) =
          replicate (length pre) NOTHING @
          edge_of level # replicate (length bounce + length rest) NOTHING
        \<and> length (filter (\<lambda>s. s \<noteq> NOTHING)
             (snd (poll_button b (pre @ (t0, dr0) # bounce @ rest)))) = 1
        \<and> down (fst (poll_button b (pre @ (t0, dr0) # bounce @ rest))) = level)
   \<and> (debouncing b \<and> down b = (\<not> level)
        \<and> (\<forall>(t, dr) \<in> set cool. t - button_last_event b < debounce_time)
        \<and> debounce_time \<le> t1 - button_last_event b
        \<and> (\<forall>(t, dr) \<in> set ((t2, dr2) # rest). is_pressed dr b = level) \<longrightarrow>
        snd (poll_button b (cool @ (t1, dr1) # (t2, dr2) # rest)) =
          replicate (length cool + 1) NOTHING @ edge_of level # replicate (length rest) NOTHING
        \<and> length (filter (\<lambda>s. s \<noteq> NOTHING)
             (snd (poll_button b (cool @ (t1, dr1) # (t2, dr2) # rest)))) = 1)"
proof (intro conjI impI)
  show "snd (get_signal digitalRead b time_now) = NOTHING" if "debouncing b"
    using that by (rule get_signal_cooldown)
next
  assume h: "\<not> debouncing b \<and> down b = (\<not> level)
        \<and> (\<forall>(t, dr) \<in> set pre. is_pressed dr b = (\<not> level))
        \<and> is_pressed dr0 b = level
        \<and> (\<forall>(t, dr) \<in> set bounce. t - t0 < debounce_time)
        \<and> (\<forall>(t, dr) \<in> set rest. is_pressed dr b = level)"
  let ?tail = "(t0, dr0) # bounce @ rest"
  have pre: "poll_button b pre = (b, replicate (length pre) NOTHING)"
    using h by (intro poll_button_idle) simp_all
  have tail: "snd (poll_button b ?tail) =
           edge_of level # replicate (length bounce + length rest) NOTHING
         \<and> down (fst (poll_button b ?tail)) = level"
    using h by (intro poll_button_transition) simp_all
  have all: "poll_button b (pre @ ?tail) =
      (fst (poll_button b ?tail), replicate (length pre) NOTHING @ snd (poll_button b ?tail))"
    by (simp only: poll_button_append [of b pre ?tail] pre fst_conv snd_conv)
  show "snd (poll_button b (pre @ ?tail)) =
          replicate (length pre) NOTHING @
          edge_of level # replicate (length bounce + length rest) NOTHING"
    using all tail by simp
  have "edge_of level \<noteq> NOTHING" by (simp add: edge_of_def)
  then show "length (filter (\<lambda>s. s \<noteq> NOTHING) (snd (poll_button b (pre @ ?tail)))) = 1"
    using all tail by simp
  show "down (fst (poll_button b (pre @ ?tail))) = level"
    using all tail by simp
next
  assume h: "debouncing b \<and> down b = (\<not> level)
        \<and> (\<forall>(t, dr) \<in> set cool. t - button_last_event b < debounce_time)
        \<and> debounce_time \<le> t1 - button_last_event b
        \<and> (\<forall>(t, dr) \<in> set ((t2, dr2) # rest). is_pressed dr b = level)"
  then have late: "snd (poll_button b (cool @ (t1, dr1) # (t2, dr2) # rest)) =
          replicate (length cool + 1) NOTHING @ edge_of level # replicate (length rest) NOTHING"
    by (intro poll_button_after_cooldown) simp_all
  then show "snd (poll_button b (cool @ (t1, dr1) # (t2, dr2) # rest)) =
          replicate (length cool + 1) NOTHING @ edge_of level # replicate (length rest) NOTHING" .
  have "edge_of level \<noteq> NOTHING" by (simp add: edge_of_def)
  then show "length (filter (\<lambda>s. s \<noteq> NOTHING)
             (snd (poll_button b (cool @ (t1, dr1) # (t2, dr2) # rest)))) = 1"
    by (simp add: late)
qed

theorem button_one_edge_per_transition_witness:
  "\<not> debouncing button_up \<and> down button_up = (\<not> True)
   \<and> is_pressed (\<lambda>p. True) button_up = (\<not> True)
   \<and> is_pressed (\<lambda>p. False) button_up = True
   \<and> (102 :: ulong) - 100 < debounce_time
   \<and> snd (poll_button button_up
        [(98, \<lambda>p. True), (100, \<lambda>p. False), (102, \<lambda>p. True),
         (104, \<lambda>p. False), (105, \<lambda>p. False), (106, \<lambda>p. False)]) =
       [NOTHING, PRESSED, NOTHING, NOTHING, NOTHING, NOTHING]
   \<and> debouncing button_down_cooling \<and> down button_down_cooling = (\<not> False)
   \<and> snd (get_signal (\<lambda>p. False) button_down_cooling 3) = NOTHING
   \<and> (1 :: ulong) - button_last_event button_down_cooling < debounce_time
   \<and> debounce_time \<le> 5 - button_last_event button_down_cooling
   \<and> is_pressed (\<lambda>p. True) button_down_cooling = False
   \<and> snd (poll_button button_down_cooling
        [(1, \<lambda>p. True), (5, \<lambda>p. True), (6, \<lambda>p. True), (7, \<lambda>p. True)]) =
       [NOTHING, NOTHING, RELEASED, NOTHING]"
  using button_one_edge_per_transition
    [of button_down_cooling "\<lambda>p. False" 3 False "[]" "\<lambda>p. True" "[]" 0 "[(7, \<lambda>p. True)]"
        "[(1, \<lambda>p. True)]" 5 6 "\<lambda>p. True" "\<lambda>p. True"]
    button_one_edge_per_transition
    [of button_up _ _ True "[(98, \<lambda>p. True)]" "\<lambda>p. False" "[(102, \<lambda>p. True)]" 100
        "[(104, \<lambda>p. False), (105, \<lambda>p. False), (106, \<lambda>p. False)]"]
  by (simp add: button_up_def button_down_cooling_def is_pressed_def debounce_time_def
      edge_of_def)

section \<open>Dice: the configuration stays in range\<close>

lemma dice_types_length_7: "dice_types_length = 7"
  by (simp add: dice_types_length_def dice_types_def)

lemma next_dice_type_index:
  "0 \<le> current_type_index d \<Longrightarrow>
   current_type_index (next_dice_type d) = (current_type_index d + 1) mod 7"
  by (simp add: next_dice_type_def dice_types_length_7 smod_nonneg)

lemma next_dice_type_amount: "current_dice_amount (next_dice_type d) = current_dice_amount d"
  by (simp add: next_dice_type_def)

lemma next_dice_amount_amount:
  "current_dice_amount (next_dice_amount d) =
     (if current_dice_amount d + 1 > 9 then 1 else current_dice_amount d + 1)"
  by (simp add: next_dice_amount_def max_dice_amount_def Let_def)

lemma next_dice_amount_index: "current_type_index (next_dice_amount d) = current_type_index d"
  by (simp add: next_dice_amount_def Let_def)

lemma next_dice_type_ok: "dice_config_ok d \<Longrightarrow> dice_config_ok (next_dice_type d)"
  by (simp add: dice_config_ok_def next_dice_type_index next_dice_type_amount dice_types_length_7)

lemma next_dice_amount_ok: "dice_config_ok d \<Longrightarrow> dice_config_ok (next_dice_amount d)"
  by (simp add: dice_config_ok_def next_dice_amount_index next_dice_amount_amount max_dice_amount_def)

lemma Dice_init_ok: "dice_config_ok (Dice_init d)"
  by (simp add: dice_config_ok_def Dice_init_def dice_types_length_7 max_dice_amount_def
      start_dice_type_index_def start_dice_amount_def)

lemma apply_config_ops_ok: "dice_config_ok d \<Longrightarrow> dice_config_ok (apply_config_ops d ops)"
  by (induction d ops rule: apply_config_ops.induct)
     (simp_all add: next_dice_type_ok next_dice_amount_ok)

lemma get_dice_type_ok:
  "dice_config_ok d \<Longrightarrow> \<exists>faces. get_dice_type d = Some faces \<and> faces \<in> set dice_types"
  by (auto simp: get_dice_type_def arr_get_def dice_config_ok_def dice_types_length_def
      intro!: nth_mem)

text \<open>
  Claim C5.  After \<open>Dice::init\<close> and any sequence of \<open>next_dice_type\<close> and
  \<open>next_dice_amount\<close> calls the type index is a valid index into the table of the seven
  face counts 4, 6, 8, 10, 12, 20, 100 and the amount is between 1 and 9.  Each increment
  wraps around: the type index goes to the next index modulo 7, the amount goes back
  to 1 after 9; neither touches the other field, and both keep the configuration valid.
\<close>

theorem dice_configuration_invariant:
  "dice_config_ok (apply_config_ops (Dice_init d0) ops)
   \<and> (\<exists>faces. get_dice_type (apply_config_ops (Dice_init d0) ops) = Some faces
         \<and> faces \<in> {4, 6, 8, 10, 12, 20, 100})
   \<and> get_dice_amount (apply_config_ops (Dice_init d0) ops) \<in> {1..9}
   \<and> (dice_config_ok d \<longrightarrow>
        current_type_index (next_dice_type d) = (current_type_index d + 1) mod 7
        \<and> current_dice_amount (next_dice_type d) = current_dice_amount d
        \<and> current_dice_amount (next_dice_amount d) =
            (if current_dice_amount d = 9 then 1 else current_dice_amount d + 1)
        \<and> current_type_index (next_dice_amount d) = current_type_index d
        \<and> dice_config_ok (next_dice_type d) \<and> dice_config_ok (next_dice_amount d))"
proof (intro conjI impI)
  let ?d = "apply_config_ops (Dice_init d0) ops"
  show ok: "dice_config_ok ?d"
    by (intro apply_config_ops_ok Dice_init_ok)
  from get_dice_type_ok [OF ok]
  show "\<exists>faces. get_dice_type ?d = Some faces \<and> faces \<in> {4, 6, 8, 10, 12, 20, 100}"
    by (simp add: dice_types_def)
  from ok show "get_dice_amount ?d \<in> {1..9}"
    by (simp add: dice_config_ok_def get_dice_amount_def max_dice_amount_def)
next
  assume ok: "dice_config_ok d"
  then show "current_type_index (next_dice_type d) = (current_type_index d + 1) mod 7"
    by (simp add: next_dice_type_index dice_config_ok_def)
  show "current_dice_amount (next_dice_type d) = current_dice_amount d"
    by (rule next_dice_type_amount)
  from ok show "current_dice_amount (next_dice_amount d) =
            (if current_dice_amount d = 9 then 1 else current_dice_amount d + 1)"
    by (auto simp: next_dice_amount_amount dice_config_ok_def max_dice_amount_def)
  show "current_type_index (next_dice_amount d) = current_type_index d"
    by (rule next_dice_amount_index)
  from ok show "dice_config_ok (next_dice_type d)" by (rule next_dice_type_ok)
  from ok show "dice_config_ok (next_dice_amount d)" by (rule next_dice_amount_ok)
qed

theorem dice_configuration_invariant_witness:
  "dice_config_ok dice_9d100
   \<and> current_type_index (next_dice_type dice_9d100) = 0
   \<and> current_dice_amount (next_dice_amount dice_9d100) = 1
   \<and> dice_config_ok (next_dice_type dice_9d100) \<and> dice_config_ok (next_dice_amount dice_9d100)
   \<and> dice_config_ok (apply_config_ops (Dice_init zero_dice) [NEXT_TYPE, NEXT_AMOUNT, NEXT_TYPE])"
  using dice_configuration_invariant [of zero_dice "[NEXT_TYPE, NEXT_AMOUNT, NEXT_TYPE]" dice_9d100]
  by (simp add: dice_config_ok_def dice_9d100_def zero_dice_def dice_types_length_7 max_dice_amount_def)

section \<open>Dice: the sum of a roll\<close>

lemma refresh_all_dice_loop_result:
  assumes "arr_get dice_types (current_type_index d) = Some faces"
    and "0 \<le> i" and "current_dice_amount d \<le> int (length (dice_values d))"
  shows "\<exists>vs. refresh_all_dice_loop rand d i = Some (d\<lparr>dice_values := vs\<rparr>)
           \<and> length vs = length (dice_values d)
           \<and> (\<forall>j. i \<le> j \<and> j < current_dice_amount d \<longrightarrow> vs ! nat j = rand (nat j) faces + 1)
           \<and> (\<forall>j. 0 \<le> j \<and> j < i \<longrightarrow> vs ! nat j = dice_values d ! nat j)"
  using assms
proof (induction rand d i rule: refresh_all_dice_loop.induct)
  case (1 rand d i)
  show ?case
  proof (cases "i < current_dice_amount d")
    case False
    then have "refresh_all_dice_loop rand d i = Some d"
      by (simp add: refresh_all_dice_loop.simps [of rand d i])
    then have "refresh_all_dice_loop rand d i = Some (d\<lparr>dice_values := dice_values d\<rparr>)"
      by simp
    with False show ?thesis
      by (intro exI [of _ "dice_values d"]) simp
  next
    case True
    let ?vs = "(dice_values d)[nat i := rand (nat i) faces + 1]"
    let ?d' = "d\<lparr>dice_values := ?vs\<rparr>"
    have set: "arr_set (dice_values d) i (rand (nat i) faces + 1) = Some ?vs"
      using True "1.prems" by (simp add: arr_set_def)
    have "\<exists>vs. refresh_all_dice_loop rand ?d' (i + 1) = Some (?d'\<lparr>dice_values := vs\<rparr>)
           \<and> length vs = length (dice_values ?d')
           \<and> (\<forall>j. i + 1 \<le> j \<and> j < current_dice_amount ?d' \<longrightarrow> vs ! nat j = rand (nat j) faces + 1)
           \<and> (\<forall>j. 0 \<le> j \<and> j < i + 1 \<longrightarrow> vs ! nat j = dice_values ?d' ! nat j)"
      using True "1.prems" set by (intro "1.IH" [of faces ?vs]) simp_all
    then obtain vs where vs: "refresh_all_dice_loop rand ?d' (i + 1) = Some (d\<lparr>dice_values := vs\<rparr>)"
      "length vs = length (dice_values d)"
      "\<And>j. i + 1 \<le> j \<Longrightarrow> j < current_dice_amount d \<Longrightarrow> vs ! nat j = rand (nat j) faces + 1"
      "\<And>j. 0 \<le> j \<Longrightarrow> j < i + 1 \<Longrightarrow> vs ! nat j = ?vs ! nat j"
      by auto
    have step: "refresh_all_dice_loop rand d i = Some (d\<lparr>dice_values := vs\<rparr>)"
      using True "1.prems"(1) set vs(1)
      by (simp add: refresh_all_dice_loop.simps [of rand d i])
    have at_i: "vs ! nat i = rand (nat i) faces + 1"
      using vs(4) [of i] True "1.prems" by simp
    have new: "vs ! nat j = rand (nat j) faces + 1" if "i \<le> j" "j < current_dice_amount d" for j
    proof (cases "j = i")
      case True
      with at_i show ?thesis by simp
    next
      case False
      with that show ?thesis by (intro vs(3)) simp_all
    qed
    have old: "vs ! nat j = dice_values d ! nat j" if "0 \<le> j" "j < i" for j
      using vs(4) [of j] that by simp
    from step vs(2) new old show ?thesis
      by (intro exI [of _ vs]) simp
  qed
qed

lemma get_dice_sum_loop_result:
  assumes "0 \<le> i" and "current_dice_amount d \<le> int (length (dice_values d))"
  shows "get_dice_sum_loop d i acc =
           Some (acc + (\<Sum>j = nat i..<nat (current_dice_amount d). dice_values d ! j))"
  using assms
proof (induction d i acc rule: get_dice_sum_loop.induct)
  case (1 d i acc)
  show ?case
  proof (cases "i < current_dice_amount d")
    case False
    then show ?thesis
      by (simp add: get_dice_sum_loop.simps [of d i acc])
  next
    case True
    have get: "arr_get (dice_values d) i = Some (dice_values d ! nat i)"
      using True "1.prems" by (simp add: arr_get_def)
    have "get_dice_sum_loop d (i + 1) (acc + dice_values d ! nat i) =
        Some (acc + dice_values d ! nat i
              + (\<Sum>j = nat (i + 1)..<nat (current_dice_amount d). dice_values d ! j))"
      using True "1.prems" get by (intro "1.IH") simp_all
    moreover have "nat (i + 1) = Suc (nat i)"
      using "1.prems"(1) by simp
    moreover have "nat i < nat (current_dice_amount d)"
      using True "1.prems"(1) by simp
    ultimately show ?thesis
      using True get
      by (simp add: get_dice_sum_loop.simps [of d i acc] sum.atLeast_Suc_lessThan)
  qed
qed

lemma finish_roll_result:
  assumes "arr_get dice_types (current_type_index d) = Some faces"
    and "current_dice_amount d \<le> int (length (dice_values d))"
  shows "\<exists>d'. finish_roll rand d time_now =
            Some (d', (if is_first_roll d then Some (time_now - roll_start_time d + time_now) else None),
                  \<Sum>k < nat (current_dice_amount d). rand k faces + 1)
          \<and> last_roll d' = (\<Sum>k < nat (current_dice_amount d). rand k faces + 1)
          \<and> current_dice_amount d' = current_dice_amount d
          \<and> current_type_index d' = current_type_index d
          \<and> length (dice_values d') = length (dice_values d)
          \<and> is_first_roll d' = False"
proof -
  let ?d1 = "if is_first_roll d then d\<lparr>is_first_roll := False\<rparr> else d"
  let ?seed = "if is_first_roll d then Some (time_now - roll_start_time d + time_now) else None"
  let ?sum = "\<Sum>k < nat (current_dice_amount d). rand k faces + 1"
  have d1: "arr_get dice_types (current_type_index ?d1) = Some faces"
    "current_dice_amount ?d1 \<le> int (length (dice_values ?d1))"
    "current_dice_amount ?d1 = current_dice_amount d" "is_first_roll ?d1 = False"
    "current_type_index ?d1 = current_type_index d" "dice_values ?d1 = dice_values d"
    using assms by simp_all
  from refresh_all_dice_loop_result [OF d1(1) _ d1(2), of 0 rand]
  obtain vs where vs: "refresh_all_dice_loop rand ?d1 0 = Some (?d1\<lparr>dice_values := vs\<rparr>)"
    "length vs = length (dice_values ?d1)"
    "\<And>j. 0 \<le> j \<Longrightarrow> j < current_dice_amount ?d1 \<Longrightarrow> vs ! nat j = rand (nat j) faces + 1"
    by auto
  let ?d2 = "?d1\<lparr>dice_values := vs\<rparr>"
  have "get_dice_sum_loop ?d2 0 0 =
      Some (0 + (\<Sum>j = nat 0..<nat (current_dice_amount ?d2). dice_values ?d2 ! j))"
    using d1(2) vs(2) by (intro get_dice_sum_loop_result) simp_all
  moreover have "(\<Sum>j = 0..<nat (current_dice_amount d). vs ! j)
      = (\<Sum>k = 0..<nat (current_dice_amount d). rand k faces + 1)"
  proof (rule sum.cong [OF refl])
    fix k assume "k \<in> {0..<nat (current_dice_amount d)}"
    then have "int k < current_dice_amount ?d1" by simp
    from vs(3) [of "int k"] this show "vs ! k = rand k faces + 1" by simp
  qed
  ultimately have sum: "get_dice_sum ?d2 = Some ?sum"
    by (simp add: get_dice_sum_def atLeast0LessThan)
  have "finish_roll rand d time_now =
      (case refresh_all_dice rand ?d1 of
         None \<Rightarrow> None
       | Some d2 \<Rightarrow>
           (case get_dice_sum d2 of
              None \<Rightarrow> None
            | Some s \<Rightarrow> Some (d2\<lparr>last_roll := s\<rparr>, ?seed, s)))"
    by (cases "is_first_roll d")
       (simp_all only: finish_roll_def Let_def if_True if_False prod.case)
  also have "\<dots> = Some (?d2\<lparr>last_roll := ?sum\<rparr>, ?seed, ?sum)"
    using vs(1) sum by (simp only: refresh_all_dice_def option.case)
  finally have "finish_roll rand d time_now = Some (?d2\<lparr>last_roll := ?sum\<rparr>, ?seed, ?sum)" .
  moreover have "last_roll (?d2\<lparr>last_roll := ?sum\<rparr>) = ?sum"
    "current_dice_amount (?d2\<lparr>last_roll := ?sum\<rparr>) = current_dice_amount d"
    "current_type_index (?d2\<lparr>last_roll := ?sum\<rparr>) = current_type_index d"
    "length (dice_values (?d2\<lparr>last_roll := ?sum\<rparr>)) = length (dice_values d)"
    "is_first_roll (?d2\<lparr>last_roll := ?sum\<rparr>) = False"
    using vs(2) by simp_all
  ultimately show ?thesis
    by blast
qed

lemma roll_sum_bounds:
  assumes "\<forall>k < n. 0 \<le> rand k faces \<and> rand k faces < (faces :: int)"
  shows "int n \<le> (\<Sum>k < n. rand k faces + 1) \<and> (\<Sum>k < n. rand k faces + 1) \<le> faces * int n"
proof
  have lo: "1 \<le> rand k faces + 1" if "k \<in> {..<n}" for k
    using assms that by simp
  have hi: "rand k faces + 1 \<le> faces" if "k \<in> {..<n}" for k
  proof -
    from assms that have "rand k faces < faces" by simp
    then show ?thesis by simp
  qed
  have "of_nat (card {..<n}) * 1 \<le> (\<Sum>k \<in> {..<n}. rand k faces + 1)"
    using lo by (rule sum_bounded_below)
  then show "int n \<le> (\<Sum>k < n. rand k faces + 1)" by simp
  have "(\<Sum>k \<in> {..<n}. rand k faces + 1) \<le> of_nat (card {..<n}) * faces"
    using hi by (rule sum_bounded_above)
  then show "(\<Sum>k < n. rand k faces + 1) \<le> faces * int n" by (simp add: mult.commute)
qed

lemma finish_roll_in_range:
  assumes "dice_config_ok d" and "length (dice_values d) = 9" and "get_dice_type d = Some faces"
    and "\<forall>k < nat (get_dice_amount d). 0 \<le> rand k faces \<and> rand k faces < faces"
  shows "\<exists>d' seed r. finish_roll rand d time_now = Some (d', seed, r)
      \<and> r = (\<Sum>k < nat (get_dice_amount d). rand k faces + 1)
      \<and> last_roll d' = r
      \<and> get_dice_amount d \<le> r \<and> r \<le> faces * get_dice_amount d
      \<and> get_dice_amount d' = get_dice_amount d \<and> get_dice_type d' = Some faces
      \<and> dice_config_ok d' \<and> length (dice_values d') = 9"
proof -
  let ?n = "nat (current_dice_amount d)"
  let ?sum = "\<Sum>k < ?n. rand k faces + 1"
  have faces: "arr_get dice_types (current_type_index d) = Some faces"
    using assms(3) by (simp add: get_dice_type_def)
  have amount: "1 \<le> current_dice_amount d" "current_dice_amount d \<le> int (length (dice_values d))"
    using assms(1,2) by (simp_all add: dice_config_ok_def max_dice_amount_def)
  from finish_roll_result [OF faces amount(2), of rand time_now]
  obtain d' seed where d': "finish_roll rand d time_now = Some (d', seed, ?sum)"
    "last_roll d' = ?sum" "current_dice_amount d' = current_dice_amount d"
    "current_type_index d' = current_type_index d"
    "length (dice_values d') = length (dice_values d)"
    by blast
  have "\<forall>k < ?n. 0 \<le> rand k faces \<and> rand k faces < faces"
    using assms(4) by (simp add: get_dice_amount_def)
  from roll_sum_bounds [of ?n rand faces] this
  have "int ?n \<le> ?sum" "?sum \<le> faces * int ?n"
    by simp_all
  with amount(1) have bounds: "current_dice_amount d \<le> ?sum" "?sum \<le> faces * current_dice_amount d"
    by simp_all
  have "dice_config_ok d'"
    using assms(1) d'(3,4) by (simp add: dice_config_ok_def)
  with d' bounds assms(2) faces
  show ?thesis
    by (intro exI [of _ d'] exI [of _ seed] exI [of _ ?sum])
       (simp add: get_dice_amount_def get_dice_type_def)
qed

text \<open>
  Claim C4.  For every valid configuration (type index in the table, amount between 1
  and 9), when each of the \<open>count\<close> calls of \<open>random(faces)\<close> answers a number from
  0 up to \<open>faces - 1\<close>, \<open>finish_roll\<close> returns: it draws \<open>count\<close> values
  \<open>random(faces) + 1\<close>, each between 1 and \<open>faces\<close>, sums them, stores the sum in
  \<open>last_roll\<close> and returns it, so the returned and stored value lies between
  \<open>count\<close> and \<open>faces * count\<close>.  The configuration is unchanged, so the same holds for
  every later call.  (How the values are distributed is a property of the library's
  \<open>random\<close>, which is outside the sketch.)
\<close>

theorem finish_roll_sum_bounds:
  "dice_config_ok d \<and> length (dice_values d) = 9 \<and> get_dice_type d = Some faces
   \<and> (\<forall>k < nat (get_dice_amount d). 0 \<le> rand k faces \<and> rand k faces < faces) \<longrightarrow>
   (\<exists>d' seed r. finish_roll rand d time_now = Some (d', seed, r)
      \<and> r = (\<Sum>k < nat (get_dice_amount d). rand k faces + 1)
      \<and> last_roll d' = r
      \<and> get_dice_amount d \<le> r \<and> r \<le> faces * get_dice_amount d
      \<and> get_dice_amount d' = get_dice_amount d \<and> get_dice_type d' = Some faces
      \<and> dice_config_ok d' \<and> length (dice_values d') = 9)"
proof
  assume "dice_config_ok d \<and> length (dice_values d) = 9 \<and> get_dice_type d = Some faces
   \<and> (\<forall>k < nat (get_dice_amount d). 0 \<le> rand k faces \<and> rand k faces < faces)"
  then show "\<exists>d' seed r. finish_roll rand d time_now = Some (d', seed, r)
      \<and> r = (\<Sum>k < nat (get_dice_amount d). rand k faces + 1)
      \<and> last_roll d' = r
      \<and> get_dice_amount d \<le> r \<and> r \<le> faces * get_dice_amount d
      \<and> get_dice_amount d' = get_dice_amount d \<and> get_dice_type d' = Some faces
      \<and> dice_config_ok d' \<and> length (dice_values d') = 9"
    by (intro finish_roll_in_range) simp_all
qed

theorem finish_roll_sum_bounds_witness:
  "dice_config_ok dice_9d100 \<and> length (dice_values dice_9d100) = 9
   \<and> get_dice_type dice_9d100 = Some 100
   \<and> get_dice_amount dice_9d100 = 9
   \<and> (0 :: int) \<le> 100 - 1 \<and> (100 :: int) - 1 < 100
   \<and> (\<exists>d' seed. finish_roll (\<lambda>k bound. bound - 1) dice_9d100 7 = Some (d', seed, 900)
         \<and> last_roll d' = 900)"
  using finish_roll_sum_bounds [of dice_9d100 100 "\<lambda>k bound. bound - 1" 7]
  by (auto simp: dice_config_ok_def dice_9d100_def zero_dice_def dice_types_length_7
      max_dice_amount_def get_dice_type_def get_dice_amount_def arr_get_def dice_types_def)

section \<open>Display: rendering a number\<close>

lemma buf5:
  assumes "length (buf :: char list) = 5"
  obtains b0 b1 b2 b3 b4 where "buf = [b0, b1, b2, b3, b4]"
proof -
  from assms obtain b0 r0 where "buf = b0 # r0" "length r0 = 4" by (cases buf) auto
  moreover then obtain b1 r1 where "r0 = b1 # r1" "length r1 = 3" by (cases r0) auto
  moreover then obtain b2 r2 where "r1 = b2 # r2" "length r2 = 2" by (cases r1) auto
  moreover then obtain b3 r3 where "r2 = b3 # r3" "length r3 = 1" by (cases r2) auto
  moreover then obtain b4 where "r3 = [b4]" by (cases r3) auto
  ultimately show ?thesis using that by simp
qed

lemma digit_code:
  assumes "0 \<le> r" and "r < 10"
  shows "char_of (r + of_char CHR ''0'') = digit_char r"
proof -
  from assms
  have "r = 0 \<or> r = 1 \<or> r = 2 \<or> r = 3 \<or> r = 4 \<or> r = 5 \<or> r = 6 \<or> r = 7 \<or> r = 8 \<or> r = 9"
    by arith
  then show ?thesis
    by (auto simp: digit_char_def char_of_def)
qed

lemma write_next_number_loop_limit:
  "\<not> i < digit_limit \<Longrightarrow> write_next_number_loop buf number index digit_limit i = Some (buf, index)"
  by (simp add: write_next_number_loop.simps [of buf number index digit_limit i])

lemma write_next_number_loop_last:
  assumes "i < digit_limit" and "0 \<le> number" and "number < 10"
    and "0 \<le> index" and "index < int (length buf)"
  shows "write_next_number_loop buf number index digit_limit i =
           Some (buf[nat index := digit_char number], index - 1)"
proof -
  have "number smod 10 = number" "number sdiv 10 = 0"
    using assms(2,3) by (simp_all add: smod_nonneg sdiv_nonneg)
  moreover have "char_of (number + of_char CHR ''0'') = digit_char number"
    using assms(2,3) by (rule digit_code)
  ultimately show ?thesis
    using assms(1,4,5)
    by (simp add: write_next_number_loop.simps [of buf number index digit_limit i] arr_set_def)
qed

lemma write_next_number_loop_more:
  assumes "i < digit_limit" and "10 \<le> number"
    and "0 \<le> index" and "index < int (length buf)"
  shows "write_next_number_loop buf number index digit_limit i =
           write_next_number_loop (buf[nat index := digit_char (number mod 10)])
             (number div 10) (index - 1) digit_limit (i + 1)"
proof -
  have "number smod 10 = number mod 10" "number sdiv 10 = number div 10"
    using assms(2) by (simp_all add: smod_nonneg sdiv_nonneg)
  moreover have "char_of (number mod 10 + of_char CHR ''0'') = digit_char (number mod 10)"
    by (rule digit_code) simp_all
  moreover have "\<not> number div 10 < 1"
    using assms(2) by simp
  ultimately show ?thesis
    using assms(1,3,4)
    by (simp add: write_next_number_loop.simps [of buf number index digit_limit i] arr_set_def)
qed

lemma erase_others_loop_done: "i < 0 \<Longrightarrow> erase_others_loop buf i = Some buf"
  by (simp add: erase_others_loop.simps [of buf i])

lemma erase_others_loop_step:
  "0 \<le> i \<Longrightarrow> i < int (length buf) \<Longrightarrow>
   erase_others_loop buf i = erase_others_loop (buf[nat i := CHR '' '']) (i - 1)"
  by (simp add: erase_others_loop.simps [of buf i] arr_set_def)

lemma write_number_cells:
  assumes "0 \<le> n" and "n \<le> 9999"
  shows "write_number (dsp\<lparr>display_buffer := [b0, b1, b2, b3, b4]\<rparr>) n =
     Some (dsp\<lparr>display_buffer :=
       (if n < 10 then [CHR '' '', CHR '' '', CHR '' '', digit_char n, b4]
        else if n < 100 then [CHR '' '', CHR '' '', digit_char (n div 10), digit_char (n mod 10), b4]
        else if n < 1000 then [CHR '' '', digit_char (n div 100), digit_char (n div 10 mod 10),
                               digit_char (n mod 10), b4]
        else [digit_char (n div 1000), digit_char (n div 100 mod 10), digit_char (n div 10 mod 10),
              digit_char (n mod 10), b4])\<rparr>)"
proof -
  consider "n < 10" | "10 \<le> n" "n < 100" | "100 \<le> n" "n < 1000" | "1000 \<le> n"
    by linarith
  then show ?thesis
  proof cases
    case 1
    then show ?thesis
      using assms
      by (simp add: write_number_def write_next_number_def display_digits_def erase_others_def
          write_next_number_loop_last erase_others_loop_step erase_others_loop_done)
  next
    case 2
    then have "n div 10 < 10" "0 \<le> n div 10" by simp_all
    with 2 show ?thesis
      by (simp add: write_number_def write_next_number_def display_digits_def erase_others_def
          write_next_number_loop_more write_next_number_loop_last
          erase_others_loop_step erase_others_loop_done)
  next
    case 3
    then have "10 \<le> n div 10" "n div 10 div 10 < 10" "0 \<le> n div 10 div 10"
      "n div 10 div 10 = n div 100"
      by (simp_all add: div_mult2_eq [symmetric])
    with 3 show ?thesis
      by (simp add: write_number_def write_next_number_def display_digits_def erase_others_def
          write_next_number_loop_more write_next_number_loop_last
          erase_others_loop_step erase_others_loop_done)
  next
    case 4
    with assms have "10 \<le> n div 10" "10 \<le> n div 10 div 10" "n div 10 div 10 div 10 < 10"
      "0 \<le> n div 10 div 10 div 10"
      "n div 10 div 10 = n div 100" "n div 10 div 10 div 10 = n div 1000"
      by (simp_all add: div_mult2_eq [symmetric])
    with 4 show ?thesis
      by (simp add: write_number_def write_next_number_def display_digits_def erase_others_def
          write_next_number_loop_more write_next_number_loop_last
          erase_others_loop_step erase_others_loop_done)
  qed
qed


lemma decimal_cases:
  assumes "0 \<le> n" and "n \<le> 9999"
  shows "decimal n =
       (if n < 10 then [digit_char n]
        else if n < 100 then [digit_char (n div 10), digit_char (n mod 10)]
        else if n < 1000 then [digit_char (n div 100), digit_char (n div 10 mod 10),
                               digit_char (n mod 10)]
        else [digit_char (n div 1000), digit_char (n div 100 mod 10), digit_char (n div 10 mod 10),
              digit_char (n mod 10)])"
proof -
  have one: "decimal k = [digit_char k]" if "k < 10" for k
    using that by (simp add: decimal.simps [of k])
  have more: "decimal k = decimal (k div 10) @ [digit_char (k mod 10)]" if "10 \<le> k" for k
    using that by (simp add: decimal.simps [of k])
  consider "n < 10" | "10 \<le> n" "n < 100" | "100 \<le> n" "n < 1000" | "1000 \<le> n"
    by linarith
  then show ?thesis
  proof cases
    case 1
    then show ?thesis by (simp add: one)
  next
    case 2
    then have "n div 10 < 10" by simp
    with 2 show ?thesis by (simp add: more [of n] one)
  next
    case 3
    then have "10 \<le> n div 10" "n div 10 div 10 < 10" "n div 10 div 10 = n div 100"
      by (simp_all add: div_mult2_eq [symmetric])
    with 3 show ?thesis by (simp add: more [of n] more [of "n div 10"] one)
  next
    case 4
    with assms have "10 \<le> n div 10" "10 \<le> n div 100" "n div 1000 < 10"
      "n div 10 div 10 = n div 100" "n div 100 div 10 = n div 1000"
      by (simp_all add: div_mult2_eq [symmetric])
    with 4 show ?thesis
      by (simp add: more [of n] more [of "n div 10"] more [of "n div 100"] one)
  qed
qed

text \<open>
  Claim C8.  For every \<open>n\<close> from 0 to 9999, \<open>write_number n\<close> succeeds and leaves in
  the four display cells exactly the decimal digits of \<open>n\<close>, right-justified, with every
  unused leading cell blank; read from right to left the cells are the digits of \<open>n\<close>,
  lowest first, followed by blanks up to width 4.  Nothing else of the display changes.
\<close>

theorem write_number_right_justified:
  "0 \<le> n \<and> n \<le> 9999 \<and> length (display_buffer dsp) = 5 \<longrightarrow>
   (\<exists>cells. write_number dsp n = Some (dsp\<lparr>display_buffer := cells\<rparr>)
      \<and> length cells = 5
      \<and> take 4 cells = right_justified 4 (decimal n)
      \<and> rev (take 4 cells) = rev (decimal n) @ replicate (4 - length (decimal n)) CHR '' ''
      \<and> length (decimal n) \<le> 4)"
proof
  assume h: "0 \<le> n \<and> n \<le> 9999 \<and> length (display_buffer dsp) = 5"
  then obtain b0 b1 b2 b3 b4 where buf: "display_buffer dsp = [b0, b1, b2, b3, b4]"
    by (auto elim: buf5)
  then have dsp: "dsp = dsp\<lparr>display_buffer := [b0, b1, b2, b3, b4]\<rparr>"
    by simp
  let ?cells = "(if n < 10 then [CHR '' '', CHR '' '', CHR '' '', digit_char n, b4]
        else if n < 100 then [CHR '' '', CHR '' '', digit_char (n div 10), digit_char (n mod 10), b4]
        else if n < 1000 then [CHR '' '', digit_char (n div 100), digit_char (n div 10 mod 10),
                               digit_char (n mod 10), b4]
        else [digit_char (n div 1000), digit_char (n div 100 mod 10), digit_char (n div 10 mod 10),
              digit_char (n mod 10), b4])"
  have "write_number (dsp\<lparr>display_buffer := [b0, b1, b2, b3, b4]\<rparr>) n =
      Some (dsp\<lparr>display_buffer := ?cells\<rparr>)"
    using h by (intro write_number_cells) simp_all
  with dsp have run: "write_number dsp n = Some (dsp\<lparr>display_buffer := ?cells\<rparr>)"
    by simp
  have dec: "decimal n =
       (if n < 10 then [digit_char n]
        else if n < 100 then [digit_char (n div 10), digit_char (n mod 10)]
        else if n < 1000 then [digit_char (n div 100), digit_char (n div 10 mod 10),
                               digit_char (n mod 10)]
        else [digit_char (n div 1000), digit_char (n div 100 mod 10), digit_char (n div 10 mod 10),
              digit_char (n mod 10)])"
    using h by (intro decimal_cases) simp_all
  have "length ?cells = 5" by simp
  moreover have "take 4 ?cells = right_justified 4 (decimal n)"
    by (simp add: dec right_justified_def numeral_3_eq_3 numeral_2_eq_2)
  moreover have "rev (take 4 ?cells) = rev (decimal n) @ replicate (4 - length (decimal n)) CHR '' ''"
    by (simp add: dec numeral_3_eq_3 numeral_2_eq_2)
  moreover have "length (decimal n) \<le> 4"
    by (simp add: dec)
  ultimately show "\<exists>cells. write_number dsp n = Some (dsp\<lparr>display_buffer := cells\<rparr>)
      \<and> length cells = 5
      \<and> take 4 cells = right_justified 4 (decimal n)
      \<and> rev (take 4 cells) = rev (decimal n) @ replicate (4 - length (decimal n)) CHR '' ''
      \<and> length (decimal n) \<le> 4"
    using run by (intro exI [of _ ?cells]) blast
qed


theorem write_number_right_justified_witness:
  "(0 :: int) \<le> 120 \<and> (120 :: int) \<le> 9999 \<and> length (display_buffer zero_display) = 5
   \<and> right_justified 4 (decimal 120) = '' 120''
   \<and> (\<exists>cells. write_number zero_display 120 = Some (zero_display\<lparr>display_buffer := cells\<rparr>)
         \<and> take 4 cells = '' 120'')"
  using write_number_right_justified [of 120 zero_display]
  by (auto simp: zero_display_def right_justified_def decimal.simps digit_char_def)

section \<open>Display: rendering the configuration\<close>

lemma write_config_string_cells:
  assumes "1 \<le> amount" and "amount \<le> 9" and "type \<in> set dice_types"
  shows "write_config_string (dsp\<lparr>display_buffer := [b0, b1, b2, b3, b4]\<rparr>) amount type =
     Some (dsp\<lparr>display_buffer :=
       (if type < 10 then [CHR '' '', digit_char amount, CHR ''d'', digit_char type, b4]
        else [digit_char amount, CHR ''d'', digit_char (type div 10 mod 10),
              digit_char (type mod 10), b4])\<rparr>)"
proof -
  from assms(3) consider "type = 4" | "type = 6" | "type = 8" | "type = 10" | "type = 12"
    | "type = 20" | "type = 100"
    by (auto simp: dice_types_def)
  then show ?thesis
    using assms(1,2)
    by cases
      (simp_all add: write_config_string_def write_next_number_def display_digits_def
        dice_type_digits_def dice_amount_digits_def erase_others_def arr_set_def
        write_next_number_loop_more write_next_number_loop_last write_next_number_loop_limit
        erase_others_loop_step erase_others_loop_done)
qed


lemma zero_display_buffer:
  "zero_display\<lparr>display_buffer := [char_of (0::int), char_of (0::int), char_of (0::int),
      char_of (0::int), char_of (0::int)]\<rparr> = zero_display"
  by (simp add: zero_display_def eval_nat_numeral)

lemma config_cells_eq:
  assumes "1 \<le> amount" and "amount \<le> 9" and "type \<in> set dice_types"
  shows "config_cells amount type =
     Some (if type < 10 then [CHR '' '', digit_char amount, CHR ''d'', digit_char type]
           else [digit_char amount, CHR ''d'', digit_char (type div 10 mod 10),
                 digit_char (type mod 10)])"
proof -
  let ?z = "char_of (0::int)"
  have "write_config_string (zero_display\<lparr>display_buffer := [?z, ?z, ?z, ?z, ?z]\<rparr>) amount type =
     Some (zero_display\<lparr>display_buffer :=
       (if type < 10 then [CHR '' '', digit_char amount, CHR ''d'', digit_char type, ?z]
        else [digit_char amount, CHR ''d'', digit_char (type div 10 mod 10),
              digit_char (type mod 10), ?z])\<rparr>)"
    using assms by (rule write_config_string_cells)
  then show ?thesis
    by (simp add: config_cells_def zero_display_buffer)
qed

text \<open>
  Claim C7, as stated, fails: the \<open>d\<close> marker is not at a fixed offset.  For (3, 20)
  it is in cell 1, for (1, 6) it is in cell 2.
\<close>

theorem config_string_d_offset_counterexample:
  "config_cells 3 20 = Some ''3d20'' \<and> config_cells 1 6 = Some '' 1d6''
   \<and> ''3d20'' ! 1 = CHR ''d'' \<and> '' 1d6'' ! 1 \<noteq> CHR ''d''
   \<and> '' 1d6'' ! 2 = CHR ''d'' \<and> ''3d20'' ! 2 \<noteq> CHR ''d''"
  by (simp add: config_cells_eq dice_types_def digit_char_def)

text \<open>
  Claim C7, amended.  For every amount from 1 to 9 and every type of the face table,
  \<open>write_config_string\<close> succeeds and writes, from the right: the last two decimal
  digits of the type (a single digit for the one-digit types 4, 6 and 8), the \<open>d\<close>
  marker in the cell just before them (cell 2 for a one-digit type, cell 1 otherwise),
  the amount in the single cell before the marker, and a blank in the leading cell that
  remains for a one-digit type.  So (3, 20) gives \<open>3d20\<close>, (1, 6) gives a blank and
  \<open>1d6\<close>, and (9, 100) gives \<open>9d00\<close>.
\<close>

theorem write_config_string_layout:
  "1 \<le> amount \<and> amount \<le> 9 \<and> type \<in> set dice_types \<and> length (display_buffer dsp) = 5 \<longrightarrow>
   (\<exists>cells. write_config_string dsp amount type = Some (dsp\<lparr>display_buffer := cells\<rparr>)
      \<and> length cells = 5
      \<and> take 4 cells =
          (if type < 10 then [CHR '' '', digit_char amount, CHR ''d'', digit_char type]
           else [digit_char amount, CHR ''d'', digit_char (type div 10 mod 10),
                 digit_char (type mod 10)]))"
proof
  assume h: "1 \<le> amount \<and> amount \<le> 9 \<and> type \<in> set dice_types \<and> length (display_buffer dsp) = 5"
  then obtain b0 b1 b2 b3 b4 where buf: "display_buffer dsp = [b0, b1, b2, b3, b4]"
    by (auto elim: buf5)
  then have dsp: "dsp = dsp\<lparr>display_buffer := [b0, b1, b2, b3, b4]\<rparr>"
    by simp
  let ?cells = "(if type < 10 then [CHR '' '', digit_char amount, CHR ''d'', digit_char type, b4]
        else [digit_char amount, CHR ''d'', digit_char (type div 10 mod 10),
              digit_char (type mod 10), b4])"
  have "write_config_string (dsp\<lparr>display_buffer := [b0, b1, b2, b3, b4]\<rparr>) amount type =
      Some (dsp\<lparr>display_buffer := ?cells\<rparr>)"
    using h by (intro write_config_string_cells) simp_all
  with dsp have "write_config_string dsp amount type = Some (dsp\<lparr>display_buffer := ?cells\<rparr>)"
    by simp
  then show "\<exists>cells. write_config_string dsp amount type = Some (dsp\<lparr>display_buffer := cells\<rparr>)
      \<and> length cells = 5
      \<and> take 4 cells =
          (if type < 10 then [CHR '' '', digit_char amount, CHR ''d'', digit_char type]
           else [digit_char amount, CHR ''d'', digit_char (type div 10 mod 10),
                 digit_char (type mod 10)])"
    by (intro exI [of _ ?cells]) simp
qed

theorem write_config_string_layout_witness:
  "(1 :: int) \<le> 9 \<and> (9 :: int) \<le> 9 \<and> (100 :: int) \<in> set dice_types
   \<and> length (display_buffer zero_display) = 5
   \<and> (\<exists>cells. write_config_string zero_display 9 100 =
         Some (zero_display\<lparr>display_buffer := cells\<rparr>) \<and> take 4 cells = ''9d00'')"
  using write_config_string_layout [of 9 100 zero_display]
  by (auto simp: zero_display_def dice_types_def digit_char_def)

section \<open>Display: the rendering routines always return\<close>

lemma write_next_number_loop_total:
  assumes "index < int (length buf)" and "digit_limit - i \<le> index + 1" and "- 1 \<le> index"
  shows "\<exists>buf' index'. write_next_number_loop buf number index digit_limit i = Some (buf', index')
           \<and> length buf' = length buf \<and> - 1 \<le> index' \<and> index' \<le> index"
  using assms
proof (induction buf number index digit_limit i rule: write_next_number_loop.induct)
  case (1 buf number index digit_limit i)
  show ?case
  proof (cases "i < digit_limit")
    case False
    with "1.prems" show ?thesis
      by (simp add: write_next_number_loop_limit)
  next
    case True
    let ?c = "char_of (number smod 10 + of_char CHR ''0'')"
    let ?buf = "buf[nat index := ?c]"
    from True "1.prems" have idx: "0 \<le> index" by simp
    with "1.prems" have set: "arr_set buf index ?c = Some ?buf"
      by (simp add: arr_set_def)
    show ?thesis
    proof (cases "number sdiv 10 < 1")
      case stop: True
      with True set idx show ?thesis
        by (simp add: write_next_number_loop.simps [of buf number index digit_limit i])
    next
      case more: False
      have "\<exists>buf' index'.
          write_next_number_loop ?buf (number sdiv 10) (index - 1) digit_limit (i + 1) = Some (buf', index')
          \<and> length buf' = length ?buf \<and> - 1 \<le> index' \<and> index' \<le> index - 1"
        using True set more "1.prems" idx
        by (intro "1.IH" [of "number smod 10" ?buf "index - 1" "number sdiv 10"]) simp_all
      then obtain buf' index' where
        "write_next_number_loop ?buf (number sdiv 10) (index - 1) digit_limit (i + 1) = Some (buf', index')"
        "length buf' = length buf" "- 1 \<le> index'" "index' \<le> index - 1"
        by auto
      with True set more show ?thesis
        by (simp add: write_next_number_loop.simps [of buf number index digit_limit i])
    qed
  qed
qed

lemma erase_others_loop_total:
  assumes "i < int (length buf)"
  shows "\<exists>buf'. erase_others_loop buf i = Some buf' \<and> length buf' = length buf"
  using assms
proof (induction buf i rule: erase_others_loop.induct)
  case (1 buf i)
  show ?case
  proof (cases "0 \<le> i")
    case False
    then show ?thesis by (simp add: erase_others_loop_done)
  next
    case True
    have "\<exists>buf'. erase_others_loop (buf[nat i := CHR '' '']) (i - 1) = Some buf'
        \<and> length buf' = length (buf[nat i := CHR '' ''])"
      using True "1.prems"
      by (intro "1.IH" [of "buf[nat i := CHR '' '']"]) (simp_all add: arr_set_def)
    with True "1.prems" show ?thesis
      by (simp add: erase_others_loop_step)
  qed
qed

lemma write_number_total:
  assumes "length (display_buffer dsp) = 5"
  shows "\<exists>cells. write_number dsp n = Some (dsp\<lparr>display_buffer := cells\<rparr>) \<and> length cells = 5"
proof -
  from write_next_number_loop_total [of 3 "display_buffer dsp" 4 0 n]
  obtain buf index where w: "write_next_number_loop (display_buffer dsp) n 3 4 0 = Some (buf, index)"
    "length buf = 5" "index \<le> 3"
    using assms by auto
  from erase_others_loop_total [of index buf]
  obtain cells where e: "erase_others_loop buf index = Some cells" "length cells = 5"
    using w(2,3) by auto
  from w(1) e(1) have "write_number dsp n = Some (dsp\<lparr>display_buffer := cells\<rparr>)"
    by (simp add: write_number_def write_next_number_def display_digits_def erase_others_def)
  with e(2) show ?thesis
    by blast
qed

lemma write_config_string_result:
  assumes "1 \<le> amount" and "amount \<le> 9" and "type \<in> set dice_types"
    and "length (display_buffer dsp) = 5"
  shows "\<exists>cells. write_config_string dsp amount type = Some (dsp\<lparr>display_buffer := cells\<rparr>)
           \<and> length cells = 5 \<and> take 4 cells = config_layout amount type"
proof -
  from assms(4) obtain b0 b1 b2 b3 b4 where buf: "display_buffer dsp = [b0, b1, b2, b3, b4]"
    by (auto elim: buf5)
  then have dsp: "dsp = dsp\<lparr>display_buffer := [b0, b1, b2, b3, b4]\<rparr>"
    by simp
  let ?cells = "if type < 10 then [CHR '' '', digit_char amount, CHR ''d'', digit_char type, b4]
        else [digit_char amount, CHR ''d'', digit_char (type div 10 mod 10),
              digit_char (type mod 10), b4]"
  have "write_config_string (dsp\<lparr>display_buffer := [b0, b1, b2, b3, b4]\<rparr>) amount type =
     Some (dsp\<lparr>display_buffer := ?cells\<rparr>)"
    using assms(1-3) by (rule write_config_string_cells)
  with dsp have "write_config_string dsp amount type = Some (dsp\<lparr>display_buffer := ?cells\<rparr>)"
    by simp
  moreover have "length ?cells = 5"
    by simp
  moreover have "take 4 ?cells = config_layout amount type"
    by (simp add: config_layout_def)
  ultimately show ?thesis
    by blast
qed

section \<open>Controller: the display service and the shape of a pass\<close>

lemma update_active_index_ok:
  assumes "display_ok dsp"
  shows "display_ok (update_active_index dsp time_now)
         \<and> display_buffer (update_active_index dsp time_now) = display_buffer dsp
         \<and> current_animation_frame (update_active_index dsp time_now) = current_animation_frame dsp
         \<and> animation_timer (update_active_index dsp time_now) = animation_timer dsp"
proof -
  let ?i = "current_active_index dsp"
  from assms have i: "0 \<le> ?i" "?i < 4" "length (display_buffer dsp) = 5"
    by (simp_all add: display_ok_def display_digits_def)
  then have "(?i + 1) smod 4 = (?i + 1) mod 4"
    by (simp add: smod_nonneg)
  then have "0 \<le> (?i + 1) smod 4" "(?i + 1) smod 4 < 4"
    by simp_all
  with i show ?thesis
    by (simp add: update_active_index_def display_ok_def display_digits_def split_beta Let_def)
qed

lemma output_char_total:
  assumes "length digits = 10"
  shows "\<exists>glyph. output_char digits ch pos = Some (MSBFIRST, glyph, push_bit (unat pos) 1)"
proof (cases "ch \<noteq> CHR ''d'' \<and> (of_char ch :: int) \<ge> of_char CHR ''0''
    \<and> (of_char ch :: int) \<le> of_char CHR ''9''")
  case True
  then have "0 \<le> (of_char ch :: int) - of_char CHR ''0''"
    "(of_char ch :: int) - of_char CHR ''0'' < int (length digits)"
    using assms by simp_all
  then have "arr_get digits (of_char ch - of_char CHR ''0'') =
      Some (digits ! nat (of_char ch - of_char CHR ''0''))"
    by (simp only: arr_get_def) simp
  with True show ?thesis
    by (simp add: output_char_def)
next
  case False
  then show ?thesis
    by (auto simp: output_char_def)
qed

lemma multiplex_total:
  assumes "display_ok dsp" and "length digits = 10"
  shows "\<exists>dsp' fr. multiplex digits dsp time_now = Some (dsp', fr)
           \<and> display_ok dsp' \<and> display_buffer dsp' = display_buffer dsp
           \<and> current_animation_frame dsp' = current_animation_frame dsp
           \<and> animation_timer dsp' = animation_timer dsp"
proof -
  let ?dsp1 = "update_active_index dsp time_now"
  note u = update_active_index_ok [OF assms(1), of time_now]
  then have "0 \<le> current_active_index ?dsp1"
    "current_active_index ?dsp1 < int (length (display_buffer ?dsp1))"
    by (auto simp: display_ok_def display_digits_def)
  then have get: "arr_get (display_buffer ?dsp1) (current_active_index ?dsp1) =
      Some (display_buffer ?dsp1 ! nat (current_active_index ?dsp1))"
    by (simp only: arr_get_def) simp
  from output_char_total [OF assms(2)]
  obtain glyph where "output_char digits (display_buffer ?dsp1 ! nat (current_active_index ?dsp1))
      (word_of_int (current_active_index ?dsp1)) =
      Some (MSBFIRST, glyph, push_bit (unat (word_of_int (current_active_index ?dsp1) :: byte)) 1)"
    by blast
  with get have "multiplex digits dsp time_now =
      Some (?dsp1, MSBFIRST, glyph, push_bit (unat (word_of_int (current_active_index ?dsp1) :: byte)) 1)"
    by (simp add: multiplex_def Let_def)
  with u show ?thesis
    by blast
qed

lemma multiplex_animation_ok:
  assumes "display_ok dsp"
  shows "display_ok (fst (multiplex_animation dsp time_now n))
         \<and> display_buffer (fst (multiplex_animation dsp time_now n)) = display_buffer dsp
         \<and> current_animation_frame (fst (multiplex_animation dsp time_now n)) = current_animation_frame dsp
         \<and> animation_timer (fst (multiplex_animation dsp time_now n)) = animation_timer dsp"
  using update_active_index_ok [OF assms, of time_now]
  by (auto simp: multiplex_animation_def Let_def display_ok_def display_digits_def)

lemma get_max_digits_amount_total:
  "dice_config_ok d \<Longrightarrow> \<exists>n. get_max_digits_amount d = Some n"
  by (simp add: get_max_digits_amount_def arr_get_def dice_config_ok_def dice_types_length_def)

lemma loop_multiplex_total:
  assumes "program_ok p" and "length digits = 10"
  shows "\<exists>dsp' fr. loop_multiplex digits p time_now = Some (p\<lparr>disp := dsp'\<rparr>, fr)
           \<and> display_ok dsp' \<and> display_buffer dsp' = display_buffer (disp p)
           \<and> current_animation_frame dsp' = current_animation_frame (disp p)
           \<and> animation_timer dsp' = animation_timer (disp p)"
proof (cases "current_state p = GENERATING")
  case True
  from assms(1) have ok: "display_ok (disp p)" "dice_config_ok (dice p)"
    by (simp_all add: program_ok_def)
  from get_max_digits_amount_total [OF ok(2)]
  obtain n where n: "get_max_digits_amount (dice p) = Some n"
    by blast
  let ?r = "multiplex_animation (disp p) time_now n"
  from True n have "loop_multiplex digits p time_now = Some (p\<lparr>disp := fst ?r\<rparr>, snd ?r)"
    by (simp add: loop_multiplex_def split_beta)
  with multiplex_animation_ok [OF ok(1), of time_now n] show ?thesis
    by blast
next
  case False
  from assms(1) have ok: "display_ok (disp p)"
    by (simp add: program_ok_def)
  from multiplex_total [OF ok assms(2), of time_now]
  obtain dsp' fr where m: "multiplex digits (disp p) time_now = Some (dsp', fr)"
    "display_ok dsp'" "display_buffer dsp' = display_buffer (disp p)"
    "current_animation_frame dsp' = current_animation_frame (disp p)"
    "animation_timer dsp' = animation_timer (disp p)"
    by blast
  from False m(1) have "loop_multiplex digits p time_now = Some (p\<lparr>disp := dsp'\<rparr>, fr)"
    by (simp add: loop_multiplex_def)
  with m show ?thesis
    by blast
qed

lemma loop_switch_cases:
  "loop_switch p inp =
     (case current_state p of
        IDLE \<Rightarrow>
          map_option (\<lambda>p2. (p2, None))
            (idle_case (polled p inp) (tick_millis inp) (roll_signal_of p inp)
               (type_signal_of p inp) (amount_signal_of p inp))
      | CONFIG \<Rightarrow>
          map_option (\<lambda>p2. (p2, None))
            (config_case (polled p inp) (roll_signal_of p inp)
               (type_signal_of p inp) (amount_signal_of p inp))
      | GENERATING \<Rightarrow> generating_case (polled p inp) inp (roll_signal_of p inp))"
  by (cases "current_state p")
     (simp_all add: loop_switch_def polled_def roll_signal_of_def type_signal_of_def
       amount_signal_of_def split_beta Let_def map_option_case)

lemma polled_fields:
  "current_state (polled p inp) = current_state p" "disp (polled p inp) = disp p"
  "dice (polled p inp) = dice p"
  by (simp_all add: polled_def)

lemma loop_from_switch:
  assumes "loop_switch p inp = Some (p1, seed)" and "program_ok p1" and "length digits = 10"
  shows "\<exists>dsp' fr. loop digits p inp = Some (p1\<lparr>disp := dsp'\<rparr>, fr, seed)
           \<and> display_ok dsp' \<and> display_buffer dsp' = display_buffer (disp p1)
           \<and> current_animation_frame dsp' = current_animation_frame (disp p1)
           \<and> animation_timer dsp' = animation_timer (disp p1)"
proof -
  from loop_multiplex_total [OF assms(2,3), of "tick_millis inp"]
  obtain dsp' fr where m: "loop_multiplex digits p1 (tick_millis inp) = Some (p1\<lparr>disp := dsp'\<rparr>, fr)"
    "display_ok dsp'" "display_buffer dsp' = display_buffer (disp p1)"
    "current_animation_frame dsp' = current_animation_frame (disp p1)"
    "animation_timer dsp' = animation_timer (disp p1)"
    by blast
  from assms(1) m(1) have "loop digits p inp = Some (p1\<lparr>disp := dsp'\<rparr>, fr, seed)"
    by (simp add: loop_def)
  with m show ?thesis
    by blast
qed

section \<open>Controller: a pass that begins in \<open>IDLE\<close>\<close>

lemma prepared_animation:
  "current_animation_frame (next_animation (prepare_animation dsp time_now)) = 0x40"
  "last_event (animation_timer (next_animation (prepare_animation dsp time_now))) = time_now"
  "delay (animation_timer (next_animation (prepare_animation dsp time_now))) = delay (animation_timer dsp)"
  "display_buffer (next_animation (prepare_animation dsp time_now)) = display_buffer dsp"
  "current_active_index (next_animation (prepare_animation dsp time_now)) = current_active_index dsp"
  "multiplex_timer (next_animation (prepare_animation dsp time_now)) = multiplex_timer dsp"
  by (simp_all add: next_animation_def prepare_animation_def animation_start_frame_def
      animation_end_frame_def reset_last_event_time_def Let_def)


lemma prepared_animation_ok:
  "display_ok dsp \<Longrightarrow> display_ok (next_animation (prepare_animation dsp time_now))"
  by (simp add: display_ok_def prepared_animation)

lemma idle_case_generating:
  assumes "rs = PRESSED \<or> \<not> has_roll_in_memory (dice p)"
    and "ts \<noteq> PRESSED" and "as \<noteq> PRESSED"
  shows "idle_case p time_now rs ts as =
           Some (p\<lparr>dice := start_roll (dice p) time_now,
                  disp := next_animation (prepare_animation (disp p) time_now),
                  current_state := GENERATING\<rparr>)"
  using assms by (auto simp: idle_case_def)

lemma idle_case_config:
  assumes "rs = PRESSED \<or> \<not> has_roll_in_memory (dice p)"
    and "ts = PRESSED \<or> as = PRESSED" and "program_ok p"
  shows "\<exists>cells faces. get_dice_type (dice p) = Some faces
           \<and> idle_case p time_now rs ts as =
               Some (p\<lparr>dice := start_roll (dice p) time_now,
                      disp := (next_animation (prepare_animation (disp p) time_now))
                                \<lparr>display_buffer := cells\<rparr>,
                      current_state := CONFIG\<rparr>)
           \<and> length cells = 5
           \<and> take 4 cells = config_layout (get_dice_amount (dice p)) faces"
proof -
  let ?dsp = "next_animation (prepare_animation (disp p) time_now)"
  let ?p1 = "p\<lparr>dice := start_roll (dice p) time_now, disp := ?dsp, current_state := GENERATING\<rparr>"
  from assms(3) have ok: "dice_config_ok (dice p)" "length (display_buffer (disp p)) = 5"
    by (simp_all add: program_ok_def display_ok_def)
  from get_dice_type_ok [OF ok(1)]
  obtain faces where faces: "get_dice_type (dice p) = Some faces" "faces \<in> set dice_types"
    by blast
  from ok(1) have amount: "1 \<le> get_dice_amount (dice p)" "get_dice_amount (dice p) \<le> 9"
    by (simp_all add: dice_config_ok_def get_dice_amount_def max_dice_amount_def)
  have "length (display_buffer ?dsp) = 5"
    using ok(2) by (simp add: prepared_animation)
  from write_config_string_result [OF amount faces(2) this]
  obtain cells where cells:
    "write_config_string ?dsp (get_dice_amount (dice p)) faces = Some (?dsp\<lparr>display_buffer := cells\<rparr>)"
    "length cells = 5" "take 4 cells = config_layout (get_dice_amount (dice p)) faces"
    by blast
  have "get_dice_type (dice ?p1) = Some faces" "get_dice_amount (dice ?p1) = get_dice_amount (dice p)"
    using faces(1) by (simp_all add: get_dice_type_def get_dice_amount_def start_roll_def)
  with assms(1,2) cells(1)
  have "idle_case p time_now rs ts as =
      Some (p\<lparr>dice := start_roll (dice p) time_now, disp := ?dsp\<lparr>display_buffer := cells\<rparr>,
             current_state := CONFIG\<rparr>)"
    by (auto simp: idle_case_def Let_def)
  with faces(1) cells(2,3) show ?thesis
    by blast
qed

lemma start_roll_config:
  "dice_config_ok (start_roll d time_now) = dice_config_ok d"
  "length (dice_values (start_roll d time_now)) = length (dice_values d)"
  "last_roll (start_roll d time_now) = last_roll d"
  "roll_start_time (start_roll d time_now) = time_now"
  by (simp_all add: start_roll_def dice_config_ok_def)

lemma idle_tick_generating:
  assumes "program_ok p" and "length digits = 10" and "current_state p = IDLE"
    and "roll_signal_of p inp = PRESSED \<or> \<not> has_roll_in_memory (dice p)"
    and "type_signal_of p inp \<noteq> PRESSED" and "amount_signal_of p inp \<noteq> PRESSED"
  shows "\<exists>p' fr. loop digits p inp = Some (p', fr, None)
           \<and> current_state p' = GENERATING
           \<and> dice p' = start_roll (dice p) (tick_millis inp)
           \<and> current_animation_frame (disp p') = 0x40
           \<and> last_event (animation_timer (disp p')) = tick_millis inp
           \<and> display_buffer (disp p') = display_buffer (disp p)"
proof -
  let ?now = "tick_millis inp"
  let ?q = "polled p inp"
  let ?dsp = "next_animation (prepare_animation (disp p) ?now)"
  let ?p1 = "?q\<lparr>dice := start_roll (dice p) ?now, disp := ?dsp, current_state := GENERATING\<rparr>"
  have "idle_case ?q ?now (roll_signal_of p inp) (type_signal_of p inp) (amount_signal_of p inp) =
      Some (?q\<lparr>dice := start_roll (dice ?q) ?now,
                disp := next_animation (prepare_animation (disp ?q) ?now),
                current_state := GENERATING\<rparr>)"
    using assms(4-6) by (intro idle_case_generating) (simp_all add: polled_fields)
  then have sw: "loop_switch p inp = Some (?p1, None)"
    using assms(3) by (simp add: loop_switch_cases polled_fields)
  have ok1: "program_ok ?p1"
    using assms(1) by (simp add: program_ok_def start_roll_config prepared_animation_ok)
  from loop_from_switch [OF sw ok1 assms(2)]
  obtain dsp' fr where l: "loop digits p inp = Some (?p1\<lparr>disp := dsp'\<rparr>, fr, None)"
    "display_buffer dsp' = display_buffer (disp ?p1)"
    "current_animation_frame dsp' = current_animation_frame (disp ?p1)"
    "animation_timer dsp' = animation_timer (disp ?p1)"
    by blast
  have "current_state (?p1\<lparr>disp := dsp'\<rparr>) = GENERATING"
    "dice (?p1\<lparr>disp := dsp'\<rparr>) = start_roll (dice p) ?now"
    "current_animation_frame (disp (?p1\<lparr>disp := dsp'\<rparr>)) = 0x40"
    "last_event (animation_timer (disp (?p1\<lparr>disp := dsp'\<rparr>))) = ?now"
    "display_buffer (disp (?p1\<lparr>disp := dsp'\<rparr>)) = display_buffer (disp p)"
    using l(2-4) by (simp_all add: prepared_animation)
  with l(1) show ?thesis
    by blast
qed

lemma idle_tick_config:
  assumes "program_ok p" and "length digits = 10" and "current_state p = IDLE"
    and "roll_signal_of p inp = PRESSED \<or> \<not> has_roll_in_memory (dice p)"
    and "type_signal_of p inp = PRESSED \<or> amount_signal_of p inp = PRESSED"
  shows "\<exists>p' fr faces. loop digits p inp = Some (p', fr, None)
           \<and> current_state p' = CONFIG
           \<and> dice p' = start_roll (dice p) (tick_millis inp)
           \<and> current_animation_frame (disp p') = 0x40
           \<and> last_event (animation_timer (disp p')) = tick_millis inp
           \<and> get_dice_type (dice p) = Some faces
           \<and> take 4 (display_buffer (disp p')) = config_layout (get_dice_amount (dice p)) faces"
proof -
  let ?now = "tick_millis inp"
  let ?q = "polled p inp"
  let ?dsp = "next_animation (prepare_animation (disp p) ?now)"
  have okq: "program_ok ?q"
    using assms(1) by (simp add: program_ok_def polled_fields)
  from idle_case_config [of "roll_signal_of p inp" ?q "type_signal_of p inp" "amount_signal_of p inp" ?now]
    assms(4,5) okq
  obtain cells faces where c: "get_dice_type (dice p) = Some faces"
    "idle_case ?q ?now (roll_signal_of p inp) (type_signal_of p inp) (amount_signal_of p inp) =
       Some (?q\<lparr>dice := start_roll (dice p) ?now, disp := ?dsp\<lparr>display_buffer := cells\<rparr>,
                 current_state := CONFIG\<rparr>)"
    "length cells = 5" "take 4 cells = config_layout (get_dice_amount (dice p)) faces"
    by (auto simp: polled_fields)
  let ?p1 = "?q\<lparr>dice := start_roll (dice p) ?now, disp := ?dsp\<lparr>display_buffer := cells\<rparr>,
                 current_state := CONFIG\<rparr>"
  from c(2) have sw: "loop_switch p inp = Some (?p1, None)"
    using assms(3) by (simp add: loop_switch_cases polled_fields)
  have ok1: "program_ok ?p1"
    using assms(1) c(3)
    by (simp add: program_ok_def start_roll_config display_ok_def prepared_animation)
  from loop_from_switch [OF sw ok1 assms(2)]
  obtain dsp' fr where l: "loop digits p inp = Some (?p1\<lparr>disp := dsp'\<rparr>, fr, None)"
    "display_buffer dsp' = display_buffer (disp ?p1)"
    "current_animation_frame dsp' = current_animation_frame (disp ?p1)"
    "animation_timer dsp' = animation_timer (disp ?p1)"
    by blast
  have "current_state (?p1\<lparr>disp := dsp'\<rparr>) = CONFIG"
    "dice (?p1\<lparr>disp := dsp'\<rparr>) = start_roll (dice p) ?now"
    "current_animation_frame (disp (?p1\<lparr>disp := dsp'\<rparr>)) = 0x40"
    "last_event (animation_timer (disp (?p1\<lparr>disp := dsp'\<rparr>))) = ?now"
    "take 4 (display_buffer (disp (?p1\<lparr>disp := dsp'\<rparr>))) = config_layout (get_dice_amount (dice p)) faces"
    using l(2-4) c(4) by (simp_all add: prepared_animation)
  with l(1) c(1) show ?thesis
    by blast
qed

lemma idle_empty_facts:
  "program_ok idle_empty" "current_state idle_empty = IDLE"
  "\<not> has_roll_in_memory (dice idle_empty)"
  "roll_signal_of idle_empty type_pressed_tick = NOTHING"
  "type_signal_of idle_empty type_pressed_tick = PRESSED"
  "amount_signal_of idle_empty type_pressed_tick = NOTHING"
  "roll_signal_of idle_empty all_released_tick = NOTHING"
  "type_signal_of idle_empty all_released_tick = NOTHING"
  "amount_signal_of idle_empty all_released_tick = NOTHING"
  "tick_millis type_pressed_tick = 11" "tick_millis all_released_tick = 11"
  "display_buffer (disp idle_empty) = [CHR '' '', CHR '' '', CHR '' '', CHR ''/'', char_of (0::int)]"
  by (simp_all add: idle_empty_def program_ok_def display_ok_def dice_config_ok_def
      Dice_init_def zero_dice_def dice_types_length_7 max_dice_amount_def display_digits_def
      start_dice_type_index_def start_dice_amount_def clear_memory_value_def
      has_roll_in_memory_def roll_signal_of_def type_signal_of_def amount_signal_of_def
      get_signal_def is_pressed_def type_pressed_tick_def all_released_tick_def debounce_time_def)

lemma idle_rolled_facts:
  "program_ok idle_rolled" "current_state idle_rolled = IDLE"
  "has_roll_in_memory (dice idle_rolled)"
  "roll_signal_of idle_rolled roll_and_amount_pressed_tick = PRESSED"
  "type_signal_of idle_rolled roll_and_amount_pressed_tick = NOTHING"
  "amount_signal_of idle_rolled roll_and_amount_pressed_tick = PRESSED"
  "tick_millis roll_and_amount_pressed_tick = 70"
  "get_dice_type (dice idle_rolled) = Some 6" "get_dice_amount (dice idle_rolled) = 1"
  by (simp_all add: idle_rolled_def program_ok_def display_ok_def dice_config_ok_def
      Dice_init_def zero_dice_def dice_types_length_7 max_dice_amount_def display_digits_def
      start_dice_type_index_def start_dice_amount_def clear_memory_value_def
      has_roll_in_memory_def roll_signal_of_def type_signal_of_def amount_signal_of_def
      get_signal_def is_pressed_def roll_and_amount_pressed_tick_def debounce_time_def
      get_dice_type_def get_dice_amount_def arr_get_def dice_types_def)

lemma sample_digits_length: "length sample_digits = 10"
  by (simp add: sample_digits_def)

text \<open>Both sample states are reached by the sketch from power-on.\<close>

lemma idle_empty_reachable:
  "Option.bind (sketch_setup sample_button_pins zero_program 0)
     (\<lambda>p. run_ticks sample_digits p (take 1 first_roll_ticks)) = Some idle_empty"
  by code_simp

lemma idle_rolled_reachable:
  "Option.bind (sketch_setup sample_button_pins zero_program 0)
     (\<lambda>p. run_ticks sample_digits p first_roll_ticks) = Some idle_rolled"
  by code_simp

text \<open>
  Claim C3, as stated, fails: in \<open>IDLE\<close> with no roll in memory, a pass in which the
  type button signals \<open>PRESSED\<close> ends in \<open>CONFIG\<close>, not in \<open>GENERATING\<close>.
\<close>

theorem idle_generating_counterexample:
  "current_state idle_empty = IDLE
   \<and> \<not> has_roll_in_memory (dice idle_empty)
   \<and> type_signal_of idle_empty type_pressed_tick = PRESSED
   \<and> map_option (\<lambda>r. current_state (fst r)) (loop sample_digits idle_empty type_pressed_tick) =
       Some CONFIG"
  using idle_tick_config [of idle_empty sample_digits type_pressed_tick]
  by (auto simp: idle_empty_facts sample_digits_length)

text \<open>
  Claim C3, amended.  On a pass that begins in \<open>IDLE\<close>, if the roll button signals
  \<open>PRESSED\<close> or no roll is in memory, and neither the type nor the amount button
  signals \<open>PRESSED\<close> in that pass, the controller calls \<open>start_roll\<close>, prepares and
  advances the animation (the frame is the start frame shifted once, the animation timer
  is re-armed at the current time), leaves the display buffer alone and ends the pass in
  \<open>GENERATING\<close>.  With an empty memory this happens without any roll press.
\<close>

theorem idle_to_generating:
  assumes "program_ok p" and "length digits = 10" and "current_state p = IDLE"
    and "roll_signal_of p inp = PRESSED \<or> \<not> has_roll_in_memory (dice p)"
    and "type_signal_of p inp \<noteq> PRESSED" and "amount_signal_of p inp \<noteq> PRESSED"
  shows "\<exists>p' fr. loop digits p inp = Some (p', fr, None)
           \<and> current_state p' = GENERATING
           \<and> dice p' = start_roll (dice p) (tick_millis inp)
           \<and> current_animation_frame (disp p') = 0x40
           \<and> last_event (animation_timer (disp p')) = tick_millis inp
           \<and> display_buffer (disp p') = display_buffer (disp p)"
  using assms by (rule idle_tick_generating)

theorem idle_to_generating_witness:
  "program_ok idle_empty \<and> length sample_digits = 10 \<and> current_state idle_empty = IDLE
   \<and> \<not> has_roll_in_memory (dice idle_empty)
   \<and> roll_signal_of idle_empty all_released_tick = NOTHING
   \<and> type_signal_of idle_empty all_released_tick = NOTHING
   \<and> amount_signal_of idle_empty all_released_tick = NOTHING
   \<and> (\<exists>p' fr. loop sample_digits idle_empty all_released_tick = Some (p', fr, None)
         \<and> current_state p' = GENERATING
         \<and> dice p' = start_roll (dice idle_empty) 11
         \<and> current_animation_frame (disp p') = 0x40
         \<and> last_event (animation_timer (disp p')) = 11)"
  using idle_to_generating [of idle_empty sample_digits all_released_tick]
  by (simp add: idle_empty_facts sample_digits_length) blast

text \<open>
  Claim C9.  On a pass that begins in \<open>IDLE\<close>, if the roll button signals \<open>PRESSED\<close>
  or no roll is in memory, and the type or the amount button signals \<open>PRESSED\<close> in the
  same pass, the pass ends in \<open>CONFIG\<close> with the configuration string on the display,
  although \<open>start_roll\<close>, \<open>prepare_animation\<close> and \<open>next_animation\<close> have run:
  the roll start time is the current time, the animation frame is the start frame shifted
  once and the animation timer is re-armed at the current time.
\<close>

theorem idle_config_overrides_generating:
  assumes "program_ok p" and "length digits = 10" and "current_state p = IDLE"
    and "roll_signal_of p inp = PRESSED \<or> \<not> has_roll_in_memory (dice p)"
    and "type_signal_of p inp = PRESSED \<or> amount_signal_of p inp = PRESSED"
  shows "\<exists>p' fr faces. loop digits p inp = Some (p', fr, None)
           \<and> current_state p' = CONFIG
           \<and> dice p' = start_roll (dice p) (tick_millis inp)
           \<and> current_animation_frame (disp p') = 0x40
           \<and> last_event (animation_timer (disp p')) = tick_millis inp
           \<and> get_dice_type (dice p) = Some faces
           \<and> take 4 (display_buffer (disp p')) = config_layout (get_dice_amount (dice p)) faces"
  using assms by (rule idle_tick_config)

theorem idle_config_overrides_generating_witness:
  "program_ok idle_rolled \<and> length sample_digits = 10 \<and> current_state idle_rolled = IDLE
   \<and> roll_signal_of idle_rolled roll_and_amount_pressed_tick = PRESSED
   \<and> amount_signal_of idle_rolled roll_and_amount_pressed_tick = PRESSED
   \<and> (\<exists>p' fr. loop sample_digits idle_rolled roll_and_amount_pressed_tick = Some (p', fr, None)
         \<and> current_state p' = CONFIG
         \<and> roll_start_time (dice p') = 70
         \<and> current_animation_frame (disp p') = 0x40
         \<and> last_event (animation_timer (disp p')) = 70
         \<and> take 4 (display_buffer (disp p')) = '' 1d6'')"
  using idle_config_overrides_generating [of idle_rolled sample_digits roll_and_amount_pressed_tick]
  by (auto simp: idle_rolled_facts sample_digits_length start_roll_config config_layout_def
      digit_char_def)

section \<open>Controller: a pass that begins in \<open>CONFIG\<close>\<close>

lemma write_number_sentinel_cells:
  "write_number (dsp\<lparr>display_buffer := [b0, b1, b2, b3, b4]\<rparr>) (- 1) =
     Some (dsp\<lparr>display_buffer := [CHR '' '', CHR '' '', CHR '' '', CHR ''/'', b4]\<rparr>)"
proof -
  have "(- 1 :: int) smod 10 = - 1" "(- 1 :: int) sdiv 10 = 0"
    by (simp_all add: signed_modulo_int_def signed_divide_int_def)
  moreover have "char_of (- 1 + of_char CHR ''0'' :: int) = CHR ''/''"
    by (simp add: char_of_def)
  ultimately have "write_next_number_loop [b0, b1, b2, b3, b4] (- 1) 3 4 0 =
      Some ([b0, b1, b2, CHR ''/'', b4], 2)"
    by (simp add: write_next_number_loop.simps [of _ "- 1" 3 4 0] arr_set_def)
  then show ?thesis
    by (simp add: write_number_def write_next_number_def display_digits_def erase_others_def
        erase_others_loop_step erase_others_loop_done)
qed

lemma write_number_sentinel:
  assumes "length (display_buffer dsp) = 5"
  shows "\<exists>cells. write_number dsp clear_memory_value = Some (dsp\<lparr>display_buffer := cells\<rparr>)
           \<and> length cells = 5 \<and> take 4 cells = [CHR '' '', CHR '' '', CHR '' '', CHR ''/'']"
proof -
  from assms obtain b0 b1 b2 b3 b4 where buf: "display_buffer dsp = [b0, b1, b2, b3, b4]"
    by (auto elim: buf5)
  then have dsp: "dsp = dsp\<lparr>display_buffer := [b0, b1, b2, b3, b4]\<rparr>"
    by simp
  have "write_number (dsp\<lparr>display_buffer := [b0, b1, b2, b3, b4]\<rparr>) (- 1) =
     Some (dsp\<lparr>display_buffer := [CHR '' '', CHR '' '', CHR '' '', CHR ''/'', b4]\<rparr>)"
    by (rule write_number_sentinel_cells)
  with dsp have "write_number dsp clear_memory_value =
      Some (dsp\<lparr>display_buffer := [CHR '' '', CHR '' '', CHR '' '', CHR ''/'', b4]\<rparr>)"
    by (simp add: clear_memory_value_def)
  then show ?thesis
    by (intro exI [of _ "[CHR '' '', CHR '' '', CHR '' '', CHR ''/'', b4]"]) simp
qed

lemma output_char_slash:
  "output_char digits CHR ''/'' pos = Some (MSBFIRST, empty_glyph, push_bit (unat pos) 1)"
  by (simp add: output_char_def)

lemma reset_then_next:
  "last_roll (next_dice_type (reset_roll_memory d)) = clear_memory_value"
  "last_roll (next_dice_amount (reset_roll_memory d)) = clear_memory_value"
  "last_roll (next_dice_type d) = last_roll d"
  "last_roll (next_dice_amount d) = last_roll d"
  "dice_values (next_dice_type d) = dice_values d"
  "dice_values (next_dice_amount d) = dice_values d"
  "dice_values (reset_roll_memory d) = dice_values d"
  "dice_config_ok (reset_roll_memory d) = dice_config_ok d"
  by (simp_all add: next_dice_type_def next_dice_amount_def reset_roll_memory_def Let_def
      dice_config_ok_def)

text \<open>One of the two configuration changes of the \<open>CONFIG\<close> case.\<close>

lemma config_change_result:
  assumes "dice_config_ok (dice p)" and "length (display_buffer (disp p)) = 5"
    and "next_dice = next_dice_type \<or> next_dice = next_dice_amount"
  shows "\<exists>cells faces.
           (let dc = next_dice (reset_roll_memory (dice p)) in
            case get_dice_type dc of
              None \<Rightarrow> None
            | Some ty \<Rightarrow>
                (case write_config_string (disp p) (get_dice_amount dc) ty of
                   None \<Rightarrow> None
                 | Some dsp \<Rightarrow> Some (p\<lparr>dice := dc, disp := dsp\<rparr>))) =
             Some (p\<lparr>dice := next_dice (reset_roll_memory (dice p)),
                    disp := (disp p)\<lparr>display_buffer := cells\<rparr>\<rparr>)
           \<and> length cells = 5
           \<and> get_dice_type (next_dice (reset_roll_memory (dice p))) = Some faces
           \<and> take 4 cells =
               config_layout (get_dice_amount (next_dice (reset_roll_memory (dice p)))) faces
           \<and> dice_config_ok (next_dice (reset_roll_memory (dice p)))"
proof -
  let ?dc = "next_dice (reset_roll_memory (dice p))"
  have ok: "dice_config_ok ?dc"
    using assms(1,3) by (auto simp: reset_then_next intro: next_dice_type_ok next_dice_amount_ok)
  from get_dice_type_ok [OF ok]
  obtain faces where faces: "get_dice_type ?dc = Some faces" "faces \<in> set dice_types"
    by blast
  from ok have amount: "1 \<le> get_dice_amount ?dc" "get_dice_amount ?dc \<le> 9"
    by (simp_all add: dice_config_ok_def get_dice_amount_def max_dice_amount_def)
  from write_config_string_result [OF amount faces(2) assms(2)]
  obtain cells where cells:
    "write_config_string (disp p) (get_dice_amount ?dc) faces = Some ((disp p)\<lparr>display_buffer := cells\<rparr>)"
    "length cells = 5" "take 4 cells = config_layout (get_dice_amount ?dc) faces"
    by blast
  from faces(1) cells(1)
  have "(let dc = ?dc in
            case get_dice_type dc of
              None \<Rightarrow> None
            | Some ty \<Rightarrow>
                (case write_config_string (disp p) (get_dice_amount dc) ty of
                   None \<Rightarrow> None
                 | Some dsp \<Rightarrow> Some (p\<lparr>dice := dc, disp := dsp\<rparr>))) =
      Some (p\<lparr>dice := ?dc, disp := (disp p)\<lparr>display_buffer := cells\<rparr>\<rparr>)"
    by (simp add: Let_def)
  with cells(2,3) faces(1) ok show ?thesis
    by blast
qed

lemma config_dice_last_roll:
  "last_roll (config_dice ts as d) =
     (if ts = PRESSED \<or> as = PRESSED then clear_memory_value else last_roll d)"
  by (simp add: config_dice_def Let_def next_dice_type_def next_dice_amount_def
      reset_roll_memory_def)

lemma config_dice_ok:
  "dice_config_ok d \<Longrightarrow> dice_config_ok (config_dice ts as d)"
  "length (dice_values (config_dice ts as d)) = length (dice_values d)"
  by (simp_all add: config_dice_def reset_then_next Let_def next_dice_type_ok next_dice_amount_ok)

lemma config_case_result:
  assumes "program_ok p"
  shows "\<exists>cells. config_case p rs ts as =
           Some (p\<lparr>dice := config_dice ts as (dice p),
                  disp := (disp p)\<lparr>display_buffer := cells\<rparr>,
                  current_state := (if rs = PRESSED then IDLE else current_state p)\<rparr>)
         \<and> length cells = 5
         \<and> (rs = PRESSED \<longrightarrow>
              (\<exists>buf. length buf = 5
                 \<and> write_number ((disp p)\<lparr>display_buffer := buf\<rparr>)
                      (get_last_roll (config_dice ts as (dice p))) =
                    Some ((disp p)\<lparr>display_buffer := cells\<rparr>)))
         \<and> (rs \<noteq> PRESSED \<and> (ts = PRESSED \<or> as = PRESSED) \<longrightarrow>
              (\<exists>faces. get_dice_type (config_dice ts as (dice p)) = Some faces
                 \<and> take 4 cells =
                     config_layout (get_dice_amount (config_dice ts as (dice p))) faces))"
proof -
  from assms have ok: "dice_config_ok (dice p)" "length (display_buffer (disp p)) = 5"
    by (simp_all add: program_ok_def display_ok_def)
  let ?d1 = "if ts = PRESSED then next_dice_type (reset_roll_memory (dice p)) else dice p"
  let ?d2 = "config_dice ts as (dice p)"
  have d2: "?d2 = (if as = PRESSED then next_dice_amount (reset_roll_memory ?d1) else ?d1)"
    by (simp add: config_dice_def Let_def)
  \<comment> \<open>the type change\<close>
  have "\<exists>cells1. (if ts = PRESSED
            then (let dc = next_dice_type (reset_roll_memory (dice p)) in
                  case get_dice_type dc of
                    None \<Rightarrow> None
                  | Some ty \<Rightarrow>
                      (case write_config_string (disp p) (get_dice_amount dc) ty of
                         None \<Rightarrow> None
                       | Some dsp \<Rightarrow> Some (p\<lparr>dice := dc, disp := dsp\<rparr>)))
            else Some p) = Some (p\<lparr>dice := ?d1, disp := (disp p)\<lparr>display_buffer := cells1\<rparr>\<rparr>)
        \<and> length cells1 = 5 \<and> dice_config_ok ?d1
        \<and> (ts = PRESSED \<longrightarrow> (\<exists>faces. get_dice_type ?d1 = Some faces
              \<and> take 4 cells1 = config_layout (get_dice_amount ?d1) faces))"
  proof (cases "ts = PRESSED")
    case True
    from config_change_result [OF ok, of next_dice_type] True show ?thesis
      by (simp only: if_True simp_thms) blast
  next
    case False
    with ok show ?thesis
      by (intro exI [of _ "display_buffer (disp p)"]) simp
  qed
  then obtain cells1 where s1: "(if ts = PRESSED
            then (let dc = next_dice_type (reset_roll_memory (dice p)) in
                  case get_dice_type dc of
                    None \<Rightarrow> None
                  | Some ty \<Rightarrow>
                      (case write_config_string (disp p) (get_dice_amount dc) ty of
                         None \<Rightarrow> None
                       | Some dsp \<Rightarrow> Some (p\<lparr>dice := dc, disp := dsp\<rparr>)))
            else Some p) = Some (p\<lparr>dice := ?d1, disp := (disp p)\<lparr>display_buffer := cells1\<rparr>\<rparr>)"
    "length cells1 = 5" "dice_config_ok ?d1"
    "ts = PRESSED \<Longrightarrow> \<exists>faces. get_dice_type ?d1 = Some faces
        \<and> take 4 cells1 = config_layout (get_dice_amount ?d1) faces"
    by blast
  let ?p1 = "p\<lparr>dice := ?d1, disp := (disp p)\<lparr>display_buffer := cells1\<rparr>\<rparr>"
  have ok1: "dice_config_ok (dice ?p1)" "length (display_buffer (disp ?p1)) = 5"
    using s1(2,3) by simp_all
  \<comment> \<open>the amount change\<close>
  have "\<exists>cells2. (if as = PRESSED
            then (let dc = next_dice_amount (reset_roll_memory (dice ?p1)) in
                  case get_dice_type dc of
                    None \<Rightarrow> None
                  | Some ty \<Rightarrow>
                      (case write_config_string (disp ?p1) (get_dice_amount dc) ty of
                         None \<Rightarrow> None
                       | Some dsp \<Rightarrow> Some (?p1\<lparr>dice := dc, disp := dsp\<rparr>)))
            else Some ?p1) = Some (p\<lparr>dice := ?d2, disp := (disp p)\<lparr>display_buffer := cells2\<rparr>\<rparr>)
        \<and> length cells2 = 5
        \<and> (ts = PRESSED \<or> as = PRESSED \<longrightarrow> (\<exists>faces. get_dice_type ?d2 = Some faces
              \<and> take 4 cells2 = config_layout (get_dice_amount ?d2) faces))"
  proof (cases "as = PRESSED")
    case True
    from config_change_result [OF ok1, of next_dice_amount]
    obtain cells faces where c: "(let dc = next_dice_amount (reset_roll_memory (dice ?p1)) in
            case get_dice_type dc of
              None \<Rightarrow> None
            | Some ty \<Rightarrow>
                (case write_config_string (disp ?p1) (get_dice_amount dc) ty of
                   None \<Rightarrow> None
                 | Some dsp \<Rightarrow> Some (?p1\<lparr>dice := dc, disp := dsp\<rparr>))) =
             Some (?p1\<lparr>dice := next_dice_amount (reset_roll_memory (dice ?p1)),
                    disp := (disp ?p1)\<lparr>display_buffer := cells\<rparr>\<rparr>)"
      "length cells = 5"
      "get_dice_type (next_dice_amount (reset_roll_memory (dice ?p1))) = Some faces"
      "take 4 cells =
         config_layout (get_dice_amount (next_dice_amount (reset_roll_memory (dice ?p1)))) faces"
      by blast
    have "?p1\<lparr>dice := next_dice_amount (reset_roll_memory (dice ?p1)),
                    disp := (disp ?p1)\<lparr>display_buffer := cells\<rparr>\<rparr> =
        p\<lparr>dice := ?d2, disp := (disp p)\<lparr>display_buffer := cells\<rparr>\<rparr>"
      using True by (simp add: config_dice_def Let_def)
    with c(1) True have "(if as = PRESSED
            then (let dc = next_dice_amount (reset_roll_memory (dice ?p1)) in
                  case get_dice_type dc of
                    None \<Rightarrow> None
                  | Some ty \<Rightarrow>
                      (case write_config_string (disp ?p1) (get_dice_amount dc) ty of
                         None \<Rightarrow> None
                       | Some dsp \<Rightarrow> Some (?p1\<lparr>dice := dc, disp := dsp\<rparr>)))
            else Some ?p1) = Some (p\<lparr>dice := ?d2, disp := (disp p)\<lparr>display_buffer := cells\<rparr>\<rparr>)"
      by (simp only: if_True simp_thms)
    moreover have "get_dice_type ?d2 = Some faces"
      "take 4 cells = config_layout (get_dice_amount ?d2) faces"
      using c(3,4) True by (simp_all add: config_dice_def Let_def)
    ultimately show ?thesis
      using c(2) by blast
  next
    case False
    then have "?d2 = ?d1"
      by (simp add: config_dice_def Let_def)
    with False s1(2,4) show ?thesis
      by (intro exI [of _ cells1]) auto
  qed
  then obtain cells2 where s2: "(if as = PRESSED
            then (let dc = next_dice_amount (reset_roll_memory (dice ?p1)) in
                  case get_dice_type dc of
                    None \<Rightarrow> None
                  | Some ty \<Rightarrow>
                      (case write_config_string (disp ?p1) (get_dice_amount dc) ty of
                         None \<Rightarrow> None
                       | Some dsp \<Rightarrow> Some (?p1\<lparr>dice := dc, disp := dsp\<rparr>)))
            else Some ?p1) = Some (p\<lparr>dice := ?d2, disp := (disp p)\<lparr>display_buffer := cells2\<rparr>\<rparr>)"
    "length cells2 = 5"
    "ts = PRESSED \<or> as = PRESSED \<Longrightarrow> \<exists>faces. get_dice_type ?d2 = Some faces
        \<and> take 4 cells2 = config_layout (get_dice_amount ?d2) faces"
    by blast
  let ?p2 = "p\<lparr>dice := ?d2, disp := (disp p)\<lparr>display_buffer := cells2\<rparr>\<rparr>"
  have unfold: "config_case p rs ts as =
      (if rs = PRESSED
       then (case write_number (disp ?p2) (get_last_roll (dice ?p2)) of
               None \<Rightarrow> None
             | Some dsp \<Rightarrow> Some (?p2\<lparr>disp := dsp, current_state := IDLE\<rparr>))
       else Some ?p2)"
    by (simp only: config_case_def s1(1) s2(1) option.case)
  show ?thesis
  proof (cases "rs = PRESSED")
    case True
    have "length (display_buffer (disp ?p2)) = 5"
      using s2(2) by simp
    from write_number_total [OF this, of "get_last_roll (dice ?p2)"]
    obtain cells where w: "write_number (disp ?p2) (get_last_roll (dice ?p2)) =
        Some ((disp ?p2)\<lparr>display_buffer := cells\<rparr>)" "length cells = 5"
      by blast
    from unfold True have "config_case p rs ts as =
        (case write_number (disp ?p2) (get_last_roll (dice ?p2)) of
           None \<Rightarrow> None
         | Some dsp \<Rightarrow> Some (?p2\<lparr>disp := dsp, current_state := IDLE\<rparr>))"
      by simp
    with w(1) have "config_case p rs ts as =
        Some (p\<lparr>dice := ?d2, disp := (disp p)\<lparr>display_buffer := cells\<rparr>,
               current_state := IDLE\<rparr>)"
      by simp
    with True have "config_case p rs ts as =
        Some (p\<lparr>dice := ?d2, disp := (disp p)\<lparr>display_buffer := cells\<rparr>,
               current_state := (if rs = PRESSED then IDLE else current_state p)\<rparr>)"
      by simp
    moreover have "\<exists>buf. length buf = 5
        \<and> write_number ((disp p)\<lparr>display_buffer := buf\<rparr>) (get_last_roll ?d2) =
             Some ((disp p)\<lparr>display_buffer := cells\<rparr>)"
      using w(1) s2(2) by (intro exI [of _ cells2]) simp
    ultimately show ?thesis
      using w(2) True by blast
  next
    case False
    with unfold have "config_case p rs ts as = Some ?p2"
      by simp
    with False have "config_case p rs ts as =
        Some (p\<lparr>dice := ?d2, disp := (disp p)\<lparr>display_buffer := cells2\<rparr>,
               current_state := (if rs = PRESSED then IDLE else current_state p)\<rparr>)"
      by simp
    with s2(2,3) False show ?thesis
      by blast
  qed
qed

lemma sketch_setup_result:
  assumes "length button_pins = 3" and "length (display_buffer (disp p0)) = 5"
  shows "\<exists>p. sketch_setup button_pins p0 time_now = Some p
           \<and> current_state p = CONFIG
           \<and> dice p = Dice_init (dice p0)
           \<and> take 4 (display_buffer (disp p)) = config_layout 1 6"
proof -
  let ?dsp = "Display_init (disp p0) time_now"
  have "length (display_buffer ?dsp) = 5"
    using assms(2) by (simp add: Display_init_def)
  from write_config_string_result [of 1 6 ?dsp, OF _ _ _ this]
  obtain cells where cells: "write_config_string ?dsp 1 6 = Some (?dsp\<lparr>display_buffer := cells\<rparr>)"
    "take 4 cells = config_layout 1 6"
    by (auto simp: dice_types_def)
  have "get_dice_type (Dice_init (dice p0)) = Some 6" "get_dice_amount (Dice_init (dice p0)) = 1"
    by (simp_all add: get_dice_type_def get_dice_amount_def Dice_init_def arr_get_def
        dice_types_def start_dice_type_index_def start_dice_amount_def)
  with cells(1) assms(1) have "sketch_setup button_pins p0 time_now =
      Some (p0\<lparr>current_state := CONFIG,
               roll_button := (roll_button p0)
                 \<lparr>debouncing := False, down := False, pin := button_pins ! 0, button_last_event := 0\<rparr>,
               amount_button := (amount_button p0)
                 \<lparr>debouncing := False, down := False, pin := button_pins ! 1, button_last_event := 0\<rparr>,
               type_button := (type_button p0)
                 \<lparr>debouncing := False, down := False, pin := button_pins ! 2, button_last_event := 0\<rparr>,
               dice := Dice_init (dice p0),
               disp := ?dsp\<lparr>display_buffer := cells\<rparr>\<rparr>)"
    by (simp add: sketch_setup_def init_buttons_def Button_init_def arr_get_def init_display_def
        start_state_def roll_button_index_def amount_button_index_def type_button_index_def
        Let_def)
  with cells(2) show ?thesis
    by (intro exI) auto
qed

lemma config_start_reachable:
  "sketch_setup sample_button_pins zero_program 0 = Some config_start"
  by code_simp

lemma config_rolled_reachable:
  "Option.bind (sketch_setup sample_button_pins zero_program 0)
     (\<lambda>p. run_ticks sample_digits p (first_roll_ticks @ [type_pressed_late_tick])) = Some config_rolled"
  by code_simp

lemma config_tick:
  assumes "program_ok p" and "length digits = 10" and "current_state p = CONFIG"
  shows "\<exists>p' fr. loop digits p inp = Some (p', fr, None)
           \<and> dice p' = config_dice (type_signal_of p inp) (amount_signal_of p inp) (dice p)
           \<and> current_state p' = (if roll_signal_of p inp = PRESSED then IDLE else CONFIG)
           \<and> length (display_buffer (disp p')) = 5
           \<and> (roll_signal_of p inp = PRESSED \<longrightarrow>
                (\<exists>buf. length buf = 5
                   \<and> write_number ((disp p)\<lparr>display_buffer := buf\<rparr>) (get_last_roll (dice p')) =
                      Some ((disp p)\<lparr>display_buffer := display_buffer (disp p')\<rparr>)))
           \<and> (roll_signal_of p inp \<noteq> PRESSED
                \<and> (type_signal_of p inp = PRESSED \<or> amount_signal_of p inp = PRESSED) \<longrightarrow>
                (\<exists>faces. get_dice_type (dice p') = Some faces
                   \<and> take 4 (display_buffer (disp p')) =
                       config_layout (get_dice_amount (dice p')) faces))"
proof -
  let ?q = "polled p inp"
  let ?rs = "roll_signal_of p inp" and ?ts = "type_signal_of p inp" and ?as = "amount_signal_of p inp"
  let ?d = "config_dice ?ts ?as (dice p)"
  have okq: "program_ok ?q"
    using assms(1) by (simp add: program_ok_def polled_fields)
  note r = config_case_result [OF okq, of ?rs ?ts ?as, unfolded polled_fields assms(3)]
  from r obtain cells where c: "config_case ?q ?rs ?ts ?as =
      Some (?q\<lparr>dice := ?d, disp := (disp p)\<lparr>display_buffer := cells\<rparr>,
               current_state := (if ?rs = PRESSED then IDLE else CONFIG)\<rparr>)"
    "length cells = 5"
    "?rs = PRESSED \<Longrightarrow> \<exists>buf. length buf = 5
       \<and> write_number ((disp p)\<lparr>display_buffer := buf\<rparr>) (get_last_roll ?d) =
            Some ((disp p)\<lparr>display_buffer := cells\<rparr>)"
    "?rs \<noteq> PRESSED \<and> (?ts = PRESSED \<or> ?as = PRESSED) \<Longrightarrow>
       \<exists>faces. get_dice_type ?d = Some faces \<and> take 4 cells = config_layout (get_dice_amount ?d) faces"
    by blast
  let ?p1 = "?q\<lparr>dice := ?d, disp := (disp p)\<lparr>display_buffer := cells\<rparr>,
               current_state := (if ?rs = PRESSED then IDLE else CONFIG)\<rparr>"
  from c(1) have sw: "loop_switch p inp = Some (?p1, None)"
    using assms(3) by (simp add: loop_switch_cases polled_fields)
  have ok1: "program_ok ?p1"
    using assms(1) c(2) by (simp add: program_ok_def display_ok_def config_dice_ok)
  from loop_from_switch [OF sw ok1 assms(2)]
  obtain dsp' fr where l: "loop digits p inp = Some (?p1\<lparr>disp := dsp'\<rparr>, fr, None)"
    "display_buffer dsp' = display_buffer (disp ?p1)"
    by blast
  let ?p' = "?p1\<lparr>disp := dsp'\<rparr>"
  have f: "dice ?p' = ?d" "current_state ?p' = (if ?rs = PRESSED then IDLE else CONFIG)"
    "display_buffer (disp ?p') = cells"
    using l(2) by simp_all
  show ?thesis
  proof (intro exI [of _ ?p'] exI [of _ fr] conjI impI)
    show "loop digits p inp = Some (?p', fr, None)" by (rule l(1))
    show "dice ?p' = ?d" by (rule f(1))
    show "current_state ?p' = (if ?rs = PRESSED then IDLE else CONFIG)" by (rule f(2))
    show "length (display_buffer (disp ?p')) = 5" using c(2) f(3) by simp
    show "\<exists>buf. length buf = 5
         \<and> write_number ((disp p)\<lparr>display_buffer := buf\<rparr>) (get_last_roll (dice ?p')) =
            Some ((disp p)\<lparr>display_buffer := display_buffer (disp ?p')\<rparr>)"
      if "?rs = PRESSED"
      using c(3) [OF that] by (simp only: f)
    show "\<exists>faces. get_dice_type (dice ?p') = Some faces
         \<and> take 4 (display_buffer (disp ?p')) = config_layout (get_dice_amount (dice ?p')) faces"
      if "?rs \<noteq> PRESSED \<and> (?ts = PRESSED \<or> ?as = PRESSED)"
      using c(4) [OF that] by (simp only: f)
  qed
qed

lemma config_start_facts:
  "program_ok config_start" "current_state config_start = CONFIG"
  "\<not> has_roll_in_memory (dice config_start)"
  "roll_signal_of config_start roll_pressed_tick = PRESSED"
  by (simp_all add: config_start_def program_ok_def display_ok_def dice_config_ok_def
      Dice_init_def zero_dice_def dice_types_length_7 max_dice_amount_def display_digits_def
      start_dice_type_index_def start_dice_amount_def clear_memory_value_def
      has_roll_in_memory_def roll_signal_of_def get_signal_def is_pressed_def
      roll_pressed_tick_def)

lemma config_rolled_facts:
  "program_ok config_rolled" "current_state config_rolled = CONFIG"
  "has_roll_in_memory (dice config_rolled)"
  "amount_signal_of config_rolled amount_pressed_tick = PRESSED"
  by (simp_all add: config_rolled_def program_ok_def display_ok_def dice_config_ok_def
      Dice_init_def zero_dice_def dice_types_length_7 max_dice_amount_def display_digits_def
      start_dice_type_index_def start_dice_amount_def clear_memory_value_def
      has_roll_in_memory_def amount_signal_of_def get_signal_def is_pressed_def
      amount_pressed_tick_def)

lemma dice_9d100_facts:
  "dice_config_ok dice_9d100" "length (dice_values dice_9d100) = 9"
  "get_dice_type dice_9d100 = Some 100" "get_dice_amount dice_9d100 = 9"
  by (simp_all add: dice_config_ok_def dice_9d100_def zero_dice_def dice_types_length_7
      max_dice_amount_def get_dice_type_def get_dice_amount_def arr_get_def dice_types_def)

text \<open>
  Claim C10.  When the roll button signals \<open>PRESSED\<close> in \<open>CONFIG\<close> while no roll is in
  memory, the pass ends in \<open>IDLE\<close> and \<open>write_number\<close> has been called with what
  \<open>get_last_roll\<close> returns, which is the sentinel \<open>-1\<close>: \<open>get_last_roll\<close> returns
  \<open>last_roll\<close> whatever it holds.  For this negative input, outside 0..9999,
  \<open>write_number\<close> still returns; the last cell holds the character with code
  \<open>-1 + '0'\<close>, which is \<open>/\<close>, the other three cells are blank, and \<open>output_char\<close>
  sends the blank glyph for \<open>/\<close>, whatever the glyph table.
\<close>

theorem config_roll_press_shows_sentinel:
  assumes "program_ok p" and "length digits = 10" and "current_state p = CONFIG"
    and "roll_signal_of p inp = PRESSED" and "\<not> has_roll_in_memory (dice p)"
  shows "\<exists>p' fr buf. loop digits p inp = Some (p', fr, None)
           \<and> current_state p' = IDLE
           \<and> get_last_roll (dice p') = - 1
           \<and> length buf = 5
           \<and> write_number ((disp p)\<lparr>display_buffer := buf\<rparr>) (get_last_roll (dice p')) =
               Some ((disp p)\<lparr>display_buffer := display_buffer (disp p')\<rparr>)
           \<and> take 4 (display_buffer (disp p')) = [CHR '' '', CHR '' '', CHR '' '', CHR ''/'']
           \<and> output_char digits CHR ''/'' pos = Some (MSBFIRST, empty_glyph, push_bit (unat pos) 1)"
proof -
  from config_tick [OF assms(1-3), of inp] assms(4)
  obtain p' fr buf where t: "loop digits p inp = Some (p', fr, None)"
    "dice p' = config_dice (type_signal_of p inp) (amount_signal_of p inp) (dice p)"
    "current_state p' = IDLE" "length buf = 5"
    "write_number ((disp p)\<lparr>display_buffer := buf\<rparr>) (get_last_roll (dice p')) =
       Some ((disp p)\<lparr>display_buffer := display_buffer (disp p')\<rparr>)"
    by auto
  from assms(5) have "last_roll (dice p) = clear_memory_value"
    by (simp add: has_roll_in_memory_def)
  with t(2) have last: "get_last_roll (dice p') = clear_memory_value"
    by (simp add: get_last_roll_def config_dice_last_roll)
  have "length (display_buffer ((disp p)\<lparr>display_buffer := buf\<rparr>)) = 5"
    using t(4) by simp
  from write_number_sentinel [OF this]
  obtain cells where c: "write_number ((disp p)\<lparr>display_buffer := buf\<rparr>) clear_memory_value =
      Some ((disp p)\<lparr>display_buffer := cells\<rparr>)"
    "take 4 cells = [CHR '' '', CHR '' '', CHR '' '', CHR ''/'']"
    by auto
  from t(5) c(1) last have "(disp p)\<lparr>display_buffer := display_buffer (disp p')\<rparr> =
      (disp p)\<lparr>display_buffer := cells\<rparr>"
    by simp
  then have "display_buffer ((disp p)\<lparr>display_buffer := display_buffer (disp p')\<rparr>) =
      display_buffer ((disp p)\<lparr>display_buffer := cells\<rparr>)"
    by (rule arg_cong)
  then have "display_buffer (disp p') = cells"
    by simp
  with c(2) have shown: "take 4 (display_buffer (disp p')) = [CHR '' '', CHR '' '', CHR '' '', CHR ''/'']"
    by simp
  from last have "get_last_roll (dice p') = - 1"
    by (simp add: clear_memory_value_def)
  with t(1,3,4,5) shown output_char_slash [of digits pos] show ?thesis
    by blast
qed

theorem config_roll_press_shows_sentinel_witness:
  "program_ok config_start \<and> length sample_digits = 10 \<and> current_state config_start = CONFIG
   \<and> roll_signal_of config_start roll_pressed_tick = PRESSED
   \<and> \<not> has_roll_in_memory (dice config_start)
   \<and> (\<exists>p' fr. loop sample_digits config_start roll_pressed_tick = Some (p', fr, None)
         \<and> current_state p' = IDLE \<and> get_last_roll (dice p') = - 1
         \<and> take 4 (display_buffer (disp p')) = ''   /'')"
  using config_roll_press_shows_sentinel [of config_start sample_digits roll_pressed_tick]
  by (simp add: config_start_facts sample_digits_length) blast

text \<open>
  Claim C6.  The sentinel is \<open>-1\<close>.  \<open>has_roll_in_memory\<close> is false exactly when
  \<open>last_roll\<close> equals the sentinel.  The sentinel is stored by \<open>Dice::init\<close>, so no roll
  is in memory after start-up, and by \<open>reset_roll_memory\<close>.  Every sum that
  \<open>finish_roll\<close> computes (for a valid configuration and a \<open>random\<close> that answers
  below its bound) is at least the amount of dice, which is at least 1, so it is greater
  than the sentinel and differs from it, and a roll is in memory afterwards.  A pass in
  \<open>CONFIG\<close> in which the type or the amount button signals \<open>PRESSED\<close> changes the
  configuration and leaves the sentinel in \<open>last_roll\<close>.
\<close>

theorem sentinel_unreachable_and_cleared:
  "clear_memory_value = - 1
   \<and> (has_roll_in_memory d \<longleftrightarrow> last_roll d \<noteq> clear_memory_value)
   \<and> last_roll (Dice_init d) = clear_memory_value
   \<and> last_roll (reset_roll_memory d) = clear_memory_value
   \<and> (length button_pins = 3 \<and> length (display_buffer (disp p0)) = 5 \<longrightarrow>
        (\<exists>p. sketch_setup button_pins p0 t0 = Some p \<and> \<not> has_roll_in_memory (dice p)))
   \<and> (dice_config_ok d \<and> length (dice_values d) = 9 \<and> get_dice_type d = Some faces
        \<and> (\<forall>k < nat (get_dice_amount d). 0 \<le> rand k faces \<and> rand k faces < faces) \<longrightarrow>
        (\<exists>d' seed r. finish_roll rand d time_now = Some (d', seed, r)
           \<and> clear_memory_value < 1 \<and> 1 \<le> get_dice_amount d \<and> get_dice_amount d \<le> r
           \<and> r \<noteq> clear_memory_value \<and> has_roll_in_memory d'))
   \<and> (program_ok p \<and> length digits = 10 \<and> current_state p = CONFIG
        \<and> (type_signal_of p inp = PRESSED \<or> amount_signal_of p inp = PRESSED) \<longrightarrow>
        (\<exists>p' fr. loop digits p inp = Some (p', fr, None)
           \<and> dice p' = config_dice (type_signal_of p inp) (amount_signal_of p inp) (dice p)
           \<and> last_roll (dice p') = clear_memory_value
           \<and> \<not> has_roll_in_memory (dice p')))"
proof (intro conjI impI)
  show "clear_memory_value = - 1"
    by (simp add: clear_memory_value_def)
  show "has_roll_in_memory d \<longleftrightarrow> last_roll d \<noteq> clear_memory_value"
    by (simp add: has_roll_in_memory_def)
  show "last_roll (Dice_init d) = clear_memory_value"
    by (simp add: Dice_init_def)
  show "last_roll (reset_roll_memory d) = clear_memory_value"
    by (simp add: reset_roll_memory_def)
next
  assume "length button_pins = 3 \<and> length (display_buffer (disp p0)) = 5"
  then have "\<exists>p. sketch_setup button_pins p0 t0 = Some p
           \<and> current_state p = CONFIG
           \<and> dice p = Dice_init (dice p0)
           \<and> take 4 (display_buffer (disp p)) = config_layout 1 6"
    by (intro sketch_setup_result) simp_all
  then show "\<exists>p. sketch_setup button_pins p0 t0 = Some p \<and> \<not> has_roll_in_memory (dice p)"
    by (auto simp: has_roll_in_memory_def Dice_init_def)
next
  assume h: "dice_config_ok d \<and> length (dice_values d) = 9 \<and> get_dice_type d = Some faces
        \<and> (\<forall>k < nat (get_dice_amount d). 0 \<le> rand k faces \<and> rand k faces < faces)"
  then have "\<exists>d' seed r. finish_roll rand d time_now = Some (d', seed, r)
      \<and> r = (\<Sum>k < nat (get_dice_amount d). rand k faces + 1)
      \<and> last_roll d' = r
      \<and> get_dice_amount d \<le> r \<and> r \<le> faces * get_dice_amount d
      \<and> get_dice_amount d' = get_dice_amount d \<and> get_dice_type d' = Some faces
      \<and> dice_config_ok d' \<and> length (dice_values d') = 9"
    by (intro finish_roll_in_range) simp_all
  then obtain d' seed r where r: "finish_roll rand d time_now = Some (d', seed, r)"
    "last_roll d' = r" "get_dice_amount d \<le> r"
    by blast
  from h have one: "1 \<le> get_dice_amount d"
    by (simp add: dice_config_ok_def get_dice_amount_def)
  with r(2,3) have "clear_memory_value < 1" "r \<noteq> clear_memory_value" "has_roll_in_memory d'"
    by (simp_all add: clear_memory_value_def has_roll_in_memory_def)
  with r(1,3) one
  show "\<exists>d' seed r. finish_roll rand d time_now = Some (d', seed, r)
           \<and> clear_memory_value < 1 \<and> 1 \<le> get_dice_amount d \<and> get_dice_amount d \<le> r
           \<and> r \<noteq> clear_memory_value \<and> has_roll_in_memory d'"
    by blast
next
  assume h: "program_ok p \<and> length digits = 10 \<and> current_state p = CONFIG
        \<and> (type_signal_of p inp = PRESSED \<or> amount_signal_of p inp = PRESSED)"
  then have "program_ok p" "length digits = 10" "current_state p = CONFIG"
    by simp_all
  from config_tick [OF this, of inp]
  obtain p' fr where t: "loop digits p inp = Some (p', fr, None)"
    "dice p' = config_dice (type_signal_of p inp) (amount_signal_of p inp) (dice p)"
    by blast
  from t(2) h have last: "last_roll (dice p') = clear_memory_value"
    by (auto simp: config_dice_last_roll)
  then have "\<not> has_roll_in_memory (dice p')"
    by (simp add: has_roll_in_memory_def)
  with t last show "\<exists>p' fr. loop digits p inp = Some (p', fr, None)
           \<and> dice p' = config_dice (type_signal_of p inp) (amount_signal_of p inp) (dice p)
           \<and> last_roll (dice p') = clear_memory_value
           \<and> \<not> has_roll_in_memory (dice p')"
    by blast
qed

theorem sentinel_unreachable_and_cleared_witness:
  "length sample_button_pins = 3 \<and> length (display_buffer (disp zero_program)) = 5
   \<and> (\<exists>p. sketch_setup sample_button_pins zero_program 0 = Some p
         \<and> \<not> has_roll_in_memory (dice p))
   \<and> dice_config_ok dice_9d100 \<and> length (dice_values dice_9d100) = 9
   \<and> get_dice_type dice_9d100 = Some 100 \<and> get_dice_amount dice_9d100 = 9
   \<and> (0 :: int) \<le> 100 - 1 \<and> (100 :: int) - 1 < 100
   \<and> (\<exists>d' seed r. finish_roll (\<lambda>k bound. bound - 1) dice_9d100 7 = Some (d', seed, r)
         \<and> r \<noteq> clear_memory_value \<and> has_roll_in_memory d')
   \<and> program_ok config_rolled \<and> length sample_digits = 10 \<and> current_state config_rolled = CONFIG
   \<and> has_roll_in_memory (dice config_rolled)
   \<and> amount_signal_of config_rolled amount_pressed_tick = PRESSED
   \<and> (\<exists>p' fr. loop sample_digits config_rolled amount_pressed_tick = Some (p', fr, None)
         \<and> \<not> has_roll_in_memory (dice p'))"
  using sentinel_unreachable_and_cleared
    [of dice_9d100 sample_button_pins zero_program 0 100 "\<lambda>k bound. bound - 1" 7
        config_rolled sample_digits amount_pressed_tick]
  by (simp add: config_rolled_facts dice_9d100_facts sample_digits_length
      sample_button_pins_def zero_program_def zero_display_def) blast

end
